theory Spec2Isabelle
  imports Complex_Main "HOL-Library.Sublist"
begin

section \<open>The ESP data streamer client\<close>

text \<open>
  A shallow embedding of \<^verbatim>\<open>src/python/data-streamer/client.py\<close>: the class \<^verbatim>\<open>Client\<close>
  with its multipart decoder, its single-file handler, its speed functions and
  \<^verbatim>\<open>download\<close>.

  Conventions of the model.
  \<^item> Python \<^verbatim>\<open>bytes\<close> and \<^verbatim>\<open>bytearray\<close> are lists of 8-bit characters; Python \<^verbatim>\<open>str\<close> is a
    list of code points (natural numbers).
  \<^item> The file system is a map from path to content, with the paths that cannot be opened.
    \<^verbatim>\<open>open(p, 'wb')\<close> raises for such a path and for a path with a null character, and
    otherwise creates or truncates the entry. \<^verbatim>\<open>write\<close> appends to the entry at once (the
    buffering of the file object is not modelled) and succeeds, as \<^verbatim>\<open>close\<close> does.
  \<^item> An exception is a value \<open>Inl (e, w)\<close>: the error and the world it leaves behind.
  \<^item> The chunk source \<^verbatim>\<open>response.iter_content\<close> is the list of chunks it yields, followed
    by an optional error that it raises once the list is exhausted.
  \<^item> The logger and the clock are not modelled; the speed functions are modelled on
    their own.
\<close>

subsection \<open>Bytes and text\<close>

type_synonym bytes = "char list"

type_synonym ustr = "nat list"

text \<open>A string literal of the source, as a \<^verbatim>\<open>str\<close>.\<close>

definition lit :: "string \<Rightarrow> ustr" where
  "lit s = map of_char s"

definition CHUNK_SIZE :: nat where
  "CHUNK_SIZE = 8192"

definition CRLF :: bytes where
  "CRLF = [CHR 0x0D, CHR 0x0A]"

text \<open>\<^verbatim>\<open>xs.startswith(p)\<close>\<close>

definition startswith :: "'a list \<Rightarrow> 'a list \<Rightarrow> bool" where
  "startswith xs p = prefix p xs"

text \<open>\<^verbatim>\<open>xs.find(sub)\<close>: the lowest index where \<open>sub\<close> occurs; \<open>None\<close> is Python's \<open>-1\<close>.\<close>

fun find_bytes :: "'a list \<Rightarrow> 'a list \<Rightarrow> nat option" where
  "find_bytes [] sub = (if sub = [] then Some 0 else None)"
| "find_bytes (x # xs) sub =
     (if startswith (x # xs) sub then Some 0 else map_option Suc (find_bytes xs sub))"

text \<open>
  \<^verbatim>\<open>re.search\<close>: the matcher \<open>m\<close> is tried at every start position from the left, the end of
  the text included; the result is capture group 1 of the first match.
\<close>

fun re_search :: "(ustr \<Rightarrow> 'a option) \<Rightarrow> ustr \<Rightarrow> 'a option" where
  "re_search m [] = m []"
| "re_search m (c # cs) = (case m (c # cs) of Some g \<Rightarrow> Some g | None \<Rightarrow> re_search m cs)"

text \<open>The class \<^verbatim>\<open>\s\<close> of a \<^verbatim>\<open>str\<close> pattern: Unicode white space.\<close>

definition is_space :: "nat \<Rightarrow> bool" where
  "is_space c = ((9 \<le> c \<and> c \<le> 13) \<or> (28 \<le> c \<and> c \<le> 32) \<or> c = 133 \<or> c = 160
     \<or> c = 5760 \<or> (8192 \<le> c \<and> c \<le> 8202) \<or> c = 8232 \<or> c = 8233 \<or> c = 8239
     \<or> c = 8287 \<or> c = 12288)"

text \<open>
  \<^verbatim>\<open>X-Part-Name:\s*"([^"]+)"\<close> anchored at the start of \<open>s\<close>. Code point 34 is the double
  quote. Both \<^verbatim>\<open>\s*\<close> and \<^verbatim>\<open>[^"]+\<close> are followed by a quote, which neither class contains,
  so each can only match its maximal run.
\<close>

definition part_name_at :: "ustr \<Rightarrow> ustr option" where
  "part_name_at s =
     (if startswith s (lit ''X-Part-Name:'') then
        (case dropWhile is_space (drop 12 s) of
           [] \<Rightarrow> None
         | q # r \<Rightarrow>
             if q = 34 then
               (let g = takeWhile (\<lambda>c. c \<noteq> 34) r
                in if g \<noteq> [] \<and> length g < length r then Some g else None)
             else None)
      else None)"

definition name_match :: "ustr \<Rightarrow> ustr option" where
  "name_match headers = re_search part_name_at headers"

text \<open>\<^verbatim>\<open>boundary=(.*)\<close> anchored at the start of \<open>s\<close>; the dot matches all but the line feed.\<close>

definition boundary_at :: "ustr \<Rightarrow> ustr option" where
  "boundary_at s =
     (if startswith s (lit ''boundary='') then Some (takeWhile (\<lambda>c. c \<noteq> 10) (drop 9 s))
      else None)"

definition boundary_match :: "ustr \<Rightarrow> ustr option" where
  "boundary_match content_type = re_search boundary_at content_type"

text \<open>
  \<^verbatim>\<open>filename="?([^"]+)"?\<close> anchored at the start of \<open>s\<close>. When the optional quote is taken
  and no name follows it, giving the quote back does not help: the class would have to
  match that very quote.
\<close>

definition filename_at :: "ustr \<Rightarrow> ustr option" where
  "filename_at s =
     (if startswith s (lit ''filename='') then
        (case drop 9 s of
           [] \<Rightarrow> None
         | q # r \<Rightarrow>
             if q = 34 then
               (let g = takeWhile (\<lambda>c. c \<noteq> 34) r in if g \<noteq> [] then Some g else None)
             else Some (takeWhile (\<lambda>c. c \<noteq> 34) (q # r)))
      else None)"

definition filename_match :: "ustr \<Rightarrow> ustr option" where
  "filename_match cd = re_search filename_at cd"

subsection \<open>UTF-8\<close>

definition cont :: "char \<Rightarrow> bool" where
  "cont c = (128 \<le> (of_char c :: nat) \<and> (of_char c :: nat) < 192)"

text \<open>
  \<^verbatim>\<open>bs.decode("utf-8")\<close>, strict: \<open>None\<close> is \<^verbatim>\<open>UnicodeDecodeError\<close> (a stray or missing
  continuation byte, an overlong form, a surrogate, a code point past U+10FFFF). After the
  lead bytes E0, ED, F0 and F4 the range of the second byte is narrower.
\<close>

fun decode_utf8 :: "bytes \<Rightarrow> ustr option" where
  "decode_utf8 [] = Some []"
| "decode_utf8 (c # cs) =
     (let b0 = (of_char c :: nat) in
      if b0 < 128 then map_option ((#) b0) (decode_utf8 cs)
      else if 194 \<le> b0 \<and> b0 < 224 then
        (case cs of
           c1 # r \<Rightarrow>
             if cont c1
             then map_option ((#) ((b0 - 192) * 64 + (of_char c1 - 128))) (decode_utf8 r)
             else None
         | _ \<Rightarrow> None)
      else if 224 \<le> b0 \<and> b0 < 240 then
        (case cs of
           c1 # c2 # r \<Rightarrow>
             if cont c1 \<and> cont c2
                \<and> (224 < b0 \<or> 160 \<le> (of_char c1 :: nat))
                \<and> (b0 < 237 \<or> 237 < b0 \<or> (of_char c1 :: nat) < 160)
             then map_option
                    ((#) ((b0 - 224) * 4096 + (of_char c1 - 128) * 64 + (of_char c2 - 128)))
                    (decode_utf8 r)
             else None
         | _ \<Rightarrow> None)
      else if 240 \<le> b0 \<and> b0 < 245 then
        (case cs of
           c1 # c2 # c3 # r \<Rightarrow>
             if cont c1 \<and> cont c2 \<and> cont c3
                \<and> (240 < b0 \<or> 144 \<le> (of_char c1 :: nat))
                \<and> (b0 < 244 \<or> (of_char c1 :: nat) < 144)
             then map_option
                    ((#) ((b0 - 240) * 262144 + (of_char c1 - 128) * 4096
                          + (of_char c2 - 128) * 64 + (of_char c3 - 128)))
                    (decode_utf8 r)
             else None
         | _ \<Rightarrow> None)
      else None)"

text \<open>\<^verbatim>\<open>s.encode("utf-8")\<close>: \<open>None\<close> is \<^verbatim>\<open>UnicodeEncodeError\<close> (a surrogate).\<close>

definition encode_char :: "nat \<Rightarrow> bytes option" where
  "encode_char c =
     (if c < 128 then Some [char_of c]
      else if c < 2048 then Some [char_of (192 + c div 64), char_of (128 + c mod 64)]
      else if c < 65536 then
        (if 55296 \<le> c \<and> c < 57344 then None
         else Some [char_of (224 + c div 4096), char_of (128 + c div 64 mod 64),
                    char_of (128 + c mod 64)])
      else if c < 1114112 then
        Some [char_of (240 + c div 262144), char_of (128 + c div 4096 mod 64),
              char_of (128 + c div 64 mod 64), char_of (128 + c mod 64)]
      else None)"

fun encode_utf8 :: "ustr \<Rightarrow> bytes option" where
  "encode_utf8 [] = Some []"
| "encode_utf8 (c # cs) =
     (case encode_char c of
        None \<Rightarrow> None
      | Some bs \<Rightarrow> map_option ((@) bs) (encode_utf8 cs))"

subsection \<open>Errors, files and the terminal\<close>

text \<open>
  The exceptions that can cross \<^verbatim>\<open>download\<close>. \<open>ValueError\<close> carries its message;
  \<open>HTTPError\<close> is what \<^verbatim>\<open>raise_for_status\<close> raises; \<open>OSError\<close> is what \<^verbatim>\<open>open\<close> raises
  (\<^verbatim>\<open>FileNotFoundError\<close>, \<^verbatim>\<open>IsADirectoryError\<close>, \<^verbatim>\<open>PermissionError\<close> and the like), with its
  message; \<open>OtherException\<close> stands for any other subclass of \<^verbatim>\<open>Exception\<close> raised by the
  transport; \<open>KeyboardInterrupt\<close> stands for the exceptions that are not subclasses of
  \<^verbatim>\<open>Exception\<close>.
\<close>

datatype error =
    ValueError string
  | UnicodeDecodeError
  | UnicodeEncodeError
  | HTTPError nat
  | OSError string
  | ChunkedEncodingError
  | OtherException string
  | KeyboardInterrupt

definition is_Exception :: "error \<Rightarrow> bool" where
  "is_Exception e = (e \<noteq> KeyboardInterrupt)"

text \<open>
  The lines the program prints: \<^verbatim>\<open>print("Done")\<close>, \<^verbatim>\<open>print(f"Downloaded: {filename}")\<close>,
  \<^verbatim>\<open>print(f"Error during chunked transfer: {e}")\<close> and \<^verbatim>\<open>print(f"Error: {e}")\<close>.
\<close>

datatype line =
    Done
  | Downloaded ustr
  | Error_during_chunked_transfer error
  | Error error

text \<open>A file object: the path it was opened on, and whether \<^verbatim>\<open>close()\<close> was called.\<close>

datatype fileobj = FileObj (fpath: ustr) (is_closed: bool)

text \<open>
  The world: the files, the lines printed so far, and for every path that the operating
  system refuses to open for writing (a missing directory, a directory under that name,
  missing rights) the message of the \<^verbatim>\<open>OSError\<close> it raises. The decoder creates and
  removes no directory, so what is refused stays the same during a download.
\<close>

record world =
  files :: "ustr \<rightharpoonup> bytes"
  stdout :: "line list"
  refused :: "ustr \<Rightarrow> string option"

text \<open>The decoder's local variables \<^verbatim>\<open>current_file\<close> and \<^verbatim>\<open>buffer\<close>, on top of the world.\<close>

record dstate = world +
  current_file :: "fileobj option"
  buffer :: bytes

type_synonym 'a result = "(error \<times> world) + 'a"

text \<open>\<^verbatim>\<open>os.path.join(a, b)\<close> of \<^verbatim>\<open>posixpath\<close>; code point 47 is the slash.\<close>

definition path_join :: "ustr \<Rightarrow> ustr \<Rightarrow> ustr" where
  "path_join a b =
     (if startswith b [47] then b
      else if a = [] \<or> last a = 47 then a @ b
      else a @ [47] @ b)"

definition append_file :: "ustr \<Rightarrow> bytes \<Rightarrow> (ustr \<rightharpoonup> bytes) \<Rightarrow> (ustr \<rightharpoonup> bytes)" where
  "append_file p data fs = fs(p \<mapsto> (case fs p of None \<Rightarrow> data | Some old \<Rightarrow> old @ data))"

text \<open>
  What \<^verbatim>\<open>open(p, 'wb')\<close> raises, if anything: \<^verbatim>\<open>ValueError\<close> for a path with a null
  character, the \<^verbatim>\<open>OSError\<close> of a refused path.
\<close>

definition open_error :: "(ustr \<Rightarrow> string option) \<Rightarrow> ustr \<Rightarrow> error option" where
  "open_error r p =
     (if 0 \<in> set p then Some (ValueError ''embedded null byte'') else map_option OSError (r p))"

text \<open>\<^verbatim>\<open>current_file = open(p, 'wb')\<close>\<close>

definition open_wb :: "ustr \<Rightarrow> dstate \<Rightarrow> dstate result" where
  "open_wb p s =
     (case open_error (refused s) p of
        Some e \<Rightarrow> Inl (e, world.truncate s)
      | None \<Rightarrow> Inr (s\<lparr>files := (files s)(p \<mapsto> []), current_file := Some (FileObj p False)\<rparr>))"

text \<open>\<^verbatim>\<open>f.write(data)\<close>: a closed file object raises \<^verbatim>\<open>ValueError\<close>.\<close>

definition file_write :: "fileobj \<Rightarrow> bytes \<Rightarrow> dstate \<Rightarrow> dstate result" where
  "file_write f data s =
     (if is_closed f
      then Inl (ValueError ''I/O operation on closed file.'', world.truncate s)
      else Inr (s\<lparr>files := append_file (fpath f) data (files s)\<rparr>))"

text \<open>\<^verbatim>\<open>f.close()\<close>, the variable still holding the file object.\<close>

definition close :: "fileobj \<Rightarrow> fileobj" where
  "close f = FileObj (fpath f) True"

subsection \<open>The multipart decoder\<close>

lemma file_write_buffer: "file_write f d s = Inr s' \<Longrightarrow> buffer s' = buffer s"
  by (auto simp: file_write_def split: if_splits)

lemma open_wb_buffer: "open_wb p s = Inr s' \<Longrightarrow> buffer s' = buffer s"
  by (auto simp: open_wb_def split: option.splits)

lemma find_bytes_zero: "find_bytes xs p = Some 0 \<Longrightarrow> startswith xs p"
  by (cases xs) (auto simp: startswith_def split: if_splits)

text \<open>
  The loop \<^verbatim>\<open>while buffer:\<close> of \<^verbatim>\<open>_handle_multipart_response\<close>, lines 122 to 163. Each
  \<^verbatim>\<open>break\<close> returns the state; each pass that reaches the end of the loop body is a
  recursive call. \<open>length (buffer s) - CHUNK_SIZE\<close> is truncating subtraction, as
  \<^verbatim>\<open>max(0, len(buffer) - CHUNK_SIZE)\<close> is. A file object is true whether or not it is
  closed, so \<^verbatim>\<open>if current_file\<close> is \<open>current_file s \<noteq> None\<close>.
\<close>

function process :: "bytes \<Rightarrow> ustr \<Rightarrow> dstate \<Rightarrow> dstate result" where
  "process boundary download_dir s =
     (if buffer s = [] then Inr s
      else if startswith (buffer s) (CRLF @ ''--'' @ boundary) then
        (let s = s\<lparr>current_file := None\<rparr> in
         case find_bytes (buffer s) (CRLF @ CRLF) of
           None \<Rightarrow> Inr s
         | Some headers_end \<Rightarrow>
             (case decode_utf8 (take headers_end (buffer s)) of
                None \<Rightarrow> Inl (UnicodeDecodeError, world.truncate s)
              | Some headers \<Rightarrow>
                  (case (case name_match headers of
                           None \<Rightarrow> Inr s
                         | Some current_filename \<Rightarrow>
                             open_wb (path_join download_dir current_filename) s) of
                     Inl e \<Rightarrow> Inl e
                   | Inr s \<Rightarrow>
                       process boundary download_dir
                         (s\<lparr>buffer := drop (headers_end + 4) (buffer s)\<rparr>))))
      else if startswith (buffer s) (CRLF @ ''--'' @ boundary @ ''--'') then
        Inr (s\<lparr>stdout := stdout s @ [Done],
               current_file := map_option close (current_file s)\<rparr>)
      else
        (case current_file s of
           Some f \<Rightarrow>
             (case find_bytes (buffer s) (CRLF @ ''--'' @ boundary) of
                Some next_boundary \<Rightarrow>
                  (case file_write f (take next_boundary (buffer s)) s of
                     Inl e \<Rightarrow> Inl e
                   | Inr s \<Rightarrow>
                       process boundary download_dir
                         (s\<lparr>buffer := drop next_boundary (buffer s)\<rparr>))
              | None \<Rightarrow>
                  (let safe_length = length (buffer s) - CHUNK_SIZE in
                   if safe_length > 0 then
                     (case file_write f (take safe_length (buffer s)) s of
                        Inl e \<Rightarrow> Inl e
                      | Inr s \<Rightarrow> Inr (s\<lparr>buffer := drop safe_length (buffer s)\<rparr>))
                   else Inr s))
         | None \<Rightarrow> Inr s))"
  by pat_completeness auto
termination
proof (relation "measure (\<lambda>(b, d, s). length (buffer s))")
  show "wf (measure (\<lambda>(b, d, s). length (buffer s)))"
    by simp
next
  fix boundary :: bytes and download_dir :: ustr and s x x2b :: dstate
    and x2 :: nat and x2a
  assume "buffer s \<noteq> []" and "x = s\<lparr>current_file := None\<rparr>"
    and "(case name_match x2a of None \<Rightarrow> Inr x
          | Some current_filename \<Rightarrow> open_wb (path_join download_dir current_filename) x)
         = Inr x2b"
  then show "((boundary, download_dir, x2b\<lparr>buffer := drop (x2 + 4) (buffer x2b)\<rparr>),
              boundary, download_dir, s) \<in> measure (\<lambda>(b, d, s). length (buffer s))"
    by (auto split: option.splits dest: open_wb_buffer)
next
  fix boundary :: bytes and download_dir :: ustr and s x2b :: dstate and x2 x2a
  assume "\<not> startswith (buffer s) (CRLF @ ''--'' @ boundary)"
    and "find_bytes (buffer s) (CRLF @ ''--'' @ boundary) = Some x2a"
    and "file_write x2 (take x2a (buffer s)) s = Inr x2b"
    and "buffer s \<noteq> []"
  then show "((boundary, download_dir, x2b\<lparr>buffer := drop x2a (buffer x2b)\<rparr>),
              boundary, download_dir, s) \<in> measure (\<lambda>(b, d, s). length (buffer s))"
    by (cases x2a) (auto dest: find_bytes_zero file_write_buffer)
qed

declare process.simps [simp del]

text \<open>
  One pass of \<^verbatim>\<open>for chunk in response.iter_content(...)\<close>, lines 117 to 163:
  an empty chunk is skipped, any other is appended to the buffer before the loop runs.
\<close>

definition feed :: "bytes \<Rightarrow> ustr \<Rightarrow> bytes \<Rightarrow> dstate \<Rightarrow> dstate result" where
  "feed boundary download_dir chunk s =
     (if chunk = [] then Inr s
      else process boundary download_dir (s\<lparr>buffer := buffer s @ chunk\<rparr>))"

text \<open>The \<^verbatim>\<open>for\<close> loop over the chunks; an exception leaves it.\<close>

fun iter_content :: "bytes \<Rightarrow> ustr \<Rightarrow> bytes list \<Rightarrow> dstate \<Rightarrow> dstate result" where
  "iter_content boundary download_dir [] s = Inr s"
| "iter_content boundary download_dir (chunk # chunks) s =
     (case feed boundary download_dir chunk s of
        Inl e \<Rightarrow> Inl e
      | Inr s' \<Rightarrow> iter_content boundary download_dir chunks s')"

text \<open>\<^verbatim>\<open>current_file = None\<close>, \<^verbatim>\<open>buffer = bytearray()\<close>\<close>

definition init :: "world \<Rightarrow> dstate" where
  "init w = \<lparr>files = files w, stdout = stdout w, refused = refused w,
              current_file = None, buffer = []\<rparr>"

text \<open>
  A response: its status code, its headers, the chunks \<^verbatim>\<open>iter_content\<close> yields and the
  error, if any, that \<^verbatim>\<open>iter_content\<close> raises after the last of them.
\<close>

record response =
  status_code :: nat
  headers :: "string \<rightharpoonup> ustr"
  chunks :: "bytes list"
  fault :: "error option"

text \<open>
  \<^verbatim>\<open>_handle_multipart_response\<close>. The result is the decoder's state when the function
  returns, so that the file object it still holds can be seen.
\<close>

definition handle_multipart_response :: "ustr \<Rightarrow> response \<Rightarrow> world \<Rightarrow> dstate result" where
  "handle_multipart_response download_dir response w =
     (let content_type = (case headers response ''Content-Type'' of None \<Rightarrow> [] | Some v \<Rightarrow> v)
      in case boundary_match content_type of
           None \<Rightarrow> Inl (ValueError ''No boundary found in Content-Type header'', w)
         | Some g \<Rightarrow>
             (case encode_utf8 g of
                None \<Rightarrow> Inl (UnicodeEncodeError, w)
              | Some boundary \<Rightarrow>
                  (case iter_content boundary download_dir (chunks response) (init w) of
                     Inl e \<Rightarrow> Inl e
                   | Inr s \<Rightarrow>
                       (case fault response of
                          Some e \<Rightarrow> Inl (e, world.truncate s)
                        | None \<Rightarrow> Inr s))))"

subsection \<open>The single-file handler\<close>

text \<open>\<^verbatim>\<open>for chunk in response.iter_content(chunk_size=8192): if chunk: f.write(chunk)\<close>\<close>

fun write_chunks :: "ustr \<Rightarrow> bytes list \<Rightarrow> world \<Rightarrow> world" where
  "write_chunks p [] w = w"
| "write_chunks p (chunk # cs) w =
     write_chunks p cs (if chunk \<noteq> [] then w\<lparr>files := append_file p chunk (files w)\<rparr> else w)"

text \<open>
  \<^verbatim>\<open>_handle_single_file_response\<close>. \<^verbatim>\<open>not cd\<close> holds for a missing header and for an empty
  one. When \<^verbatim>\<open>open\<close> raises, nothing was written. The \<^verbatim>\<open>with\<close> block closes the file on
  every way out.
\<close>

definition handle_single_file_response :: "ustr \<Rightarrow> response \<Rightarrow> world \<Rightarrow> world result" where
  "handle_single_file_response download_dir response w =
     (case headers response ''Content-Disposition'' of
        None \<Rightarrow> Inl (ValueError ''No Content-Disposition header'', w)
      | Some cd \<Rightarrow>
          if cd = [] then Inl (ValueError ''No Content-Disposition header'', w)
          else
            (case filename_match cd of
               None \<Rightarrow> Inl (ValueError ''No filename in Content-Disposition header'', w)
             | Some filename \<Rightarrow>
                 (let filepath = path_join download_dir filename
                  in case open_error (refused w) filepath of
                       Some e \<Rightarrow> Inl (e, w)
                     | None \<Rightarrow>
                         (let w = write_chunks filepath (chunks response)
                                    (w\<lparr>files := (files w)(filepath \<mapsto> [])\<rparr>)
                          in case fault response of
                               Some e \<Rightarrow> Inl (e, w)
                             | None \<Rightarrow> Inr (w\<lparr>stdout := stdout w @ [Downloaded filename]\<rparr>)))))"

subsection \<open>Download\<close>

text \<open>
  The \<^verbatim>\<open>try\<close> block of \<^verbatim>\<open>download\<close>. \<open>got\<close> is what \<^verbatim>\<open>self.session.get(...)\<close> does: it
  raises or returns a response. \<^verbatim>\<open>raise_for_status\<close> raises for the status codes 400
  to 599. \<^verbatim>\<open>'multipart' in content_type\<close> is a search for the substring.
\<close>

definition download_try :: "ustr \<Rightarrow> error + response \<Rightarrow> world \<Rightarrow> world result" where
  "download_try download_dir got w =
     (case got of
        Inl e \<Rightarrow> Inl (e, w)
      | Inr response \<Rightarrow>
          if 400 \<le> status_code response \<and> status_code response < 600
          then Inl (HTTPError (status_code response), w)
          else
            (let content_type =
                   (case headers response ''Content-Type'' of None \<Rightarrow> [] | Some v \<Rightarrow> v)
             in if find_bytes content_type (lit ''multipart'') \<noteq> None
                then (case handle_multipart_response download_dir response w of
                        Inl e \<Rightarrow> Inl e
                      | Inr s \<Rightarrow> Inr (world.truncate s))
                else handle_single_file_response download_dir response w))"

text \<open>
  \<^verbatim>\<open>download\<close>: the \<^verbatim>\<open>try\<close> block under its two \<^verbatim>\<open>except\<close> clauses,
  \<^verbatim>\<open>except ChunkedEncodingError\<close> first and \<^verbatim>\<open>except Exception\<close> second. An exception that
  neither clause matches leaves the function.
\<close>

definition download :: "ustr \<Rightarrow> error + response \<Rightarrow> world \<Rightarrow> world result" where
  "download download_dir got w =
     (case download_try download_dir got w of
        Inr w' \<Rightarrow> Inr w'
      | Inl (e, w') \<Rightarrow>
          if e = ChunkedEncodingError
          then Inr (w'\<lparr>stdout := stdout w' @ [Error_during_chunked_transfer e]\<rparr>)
          else if is_Exception e
          then Inr (w'\<lparr>stdout := stdout w' @ [Error e]\<rparr>)
          else Inl (e, w'))"

subsection \<open>The speed functions\<close>

text \<open>
  A finite float is modelled by the rational number it denotes. In \<^verbatim>\<open>_format_speed\<close> the
  comparisons with 1024.0 are exact, a division by 1024.0 only lowers the exponent, and
  \<^verbatim>\<open>:.2f\<close> rounds the exact value to two decimals, ties to even: on finite input the
  model computes what the code does. The quotients of \<^verbatim>\<open>_calculate_speed\<close> are rounded to
  the nearest float by the code and exact in the model.
\<close>

definition calculate_speed :: "int \<Rightarrow> int \<Rightarrow> rat \<Rightarrow> rat \<times> rat" where
  "calculate_speed bytes_received total_bytes elapsed_time =
     (if elapsed_time = 0 then (0, 0)
      else (of_int bytes_received / elapsed_time, of_int total_bytes / elapsed_time))"

definition round_half_even :: "rat \<Rightarrow> int" where
  "round_half_even q =
     (let f = \<lfloor>q\<rfloor>; r = q - of_int f
      in if r < 1 / 2 then f else if 1 / 2 < r then f + 1 else if even f then f else f + 1)"

definition digit :: "nat \<Rightarrow> char" where
  "digit d = char_of (48 + d)"

function decimal :: "nat \<Rightarrow> string" where
  "decimal n = (if n < 10 then [digit n] else decimal (n div 10) @ [digit (n mod 10)])"
  by pat_completeness auto
termination
  by (relation "measure id") auto

declare decimal.simps [simp del]

text \<open>\<^verbatim>\<open>f"{x:.2f}"\<close>\<close>

definition fmt2 :: "rat \<Rightarrow> string" where
  "fmt2 x =
     (let n = nat (round_half_even (\<bar>x\<bar> * 100))
      in (if x < 0 then ''-'' else []) @ decimal (n div 100) @ ''.''
         @ [digit (n mod 100 div 10), digit (n mod 10)])"

text \<open>The loop \<^verbatim>\<open>for unit in [...]\<close> of \<^verbatim>\<open>_format_speed\<close>, and the \<^verbatim>\<open>return\<close> after it.\<close>

fun format_units :: "string list \<Rightarrow> rat \<Rightarrow> string" where
  "format_units [] speed = fmt2 speed @ '' TB/s''"
| "format_units (unit # units) speed =
     (if speed < 1024 then fmt2 speed @ '' '' @ unit else format_units units (speed / 1024))"

definition format_speed :: "rat \<Rightarrow> string" where
  "format_speed speed = format_units [''B/s'', ''KB/s'', ''MB/s'', ''GB/s''] speed"

subsection \<open>A reference parser\<close>

text \<open>
  A single-shot parse of a whole multipart stream, written from the specification and
  not from the code. A part starts with the start-of-part marker \<^verbatim>\<open><CRLF>--<boundary>\<close>; its
  header block ends at the first \<^verbatim>\<open><CRLF><CRLF>\<close> and declares the part name; its payload
  runs up to the next boundary marker. The terminal marker \<^verbatim>\<open><CRLF>--<boundary>--\<close> ends
  the parse. The result is the list of parts, each a name and a payload, and the rest of
  the stream from the terminal marker on; \<open>None\<close> when the stream is not of this shape.
\<close>

function reference_parse :: "bytes \<Rightarrow> bytes \<Rightarrow> ((ustr \<times> bytes) list \<times> bytes) option" where
  "reference_parse boundary stream =
     (if startswith stream (CRLF @ ''--'' @ boundary @ ''--'') then Some ([], stream)
      else if startswith stream (CRLF @ ''--'' @ boundary) then
        (case find_bytes stream (CRLF @ CRLF) of
           None \<Rightarrow> None
         | Some headers_end \<Rightarrow>
             (case decode_utf8 (take headers_end stream) of
                None \<Rightarrow> None
              | Some header_block \<Rightarrow>
                  (case name_match header_block of
                     None \<Rightarrow> None
                   | Some name \<Rightarrow>
                       (let rest = drop (headers_end + 4) stream
                        in case find_bytes rest (CRLF @ ''--'' @ boundary) of
                             None \<Rightarrow> None
                           | Some n \<Rightarrow>
                               (case reference_parse boundary (drop n rest) of
                                  None \<Rightarrow> None
                                | Some (parts, tail) \<Rightarrow>
                                    Some ((name, take n rest) # parts, tail))))))
      else None)"
  by pat_completeness auto
termination
proof (relation "measure (\<lambda>(b, stream). length stream)")
  show "wf (measure (\<lambda>(b, stream). length stream))"
    by simp
next
  fix boundary stream :: bytes and x2 :: nat and x2a x2b :: ustr and x :: bytes and x2c :: nat
  assume "startswith stream (CRLF @ ''--'' @ boundary)" and "x = drop (x2 + 4) stream"
  then show "((boundary, drop x2c x), boundary, stream) \<in> measure (\<lambda>(b, stream). length stream)"
    by (cases stream) (auto simp: startswith_def CRLF_def)
qed

declare reference_parse.simps [simp del]

text \<open>
  A well-formed stream: the boundary token has 1 to 70 bytes, as RFC 2046 has it, and the
  stream is a sequence of parts and a terminal marker. What follows the terminal marker is
  free: the specification has it discarded.
\<close>

definition wellformed :: "bytes \<Rightarrow> bytes \<Rightarrow> bool" where
  "wellformed boundary stream =
     (boundary \<noteq> [] \<and> length boundary \<le> 70 \<and> reference_parse boundary stream \<noteq> None)"

text \<open>The files of the reference parse: each part written under its name, in order.\<close>

fun write_parts :: "ustr \<Rightarrow> (ustr \<times> bytes) list \<Rightarrow> (ustr \<rightharpoonup> bytes) \<Rightarrow> (ustr \<rightharpoonup> bytes)" where
  "write_parts download_dir [] fs = fs"
| "write_parts download_dir ((name, payload) # parts) fs =
     write_parts download_dir parts (fs(path_join download_dir name \<mapsto> payload))"

definition reference_files :: "bytes \<Rightarrow> ustr \<Rightarrow> bytes \<Rightarrow> (ustr \<rightharpoonup> bytes) \<Rightarrow> (ustr \<rightharpoonup> bytes)" where
  "reference_files boundary download_dir stream fs =
     (case reference_parse boundary stream of
        None \<Rightarrow> fs
      | Some (parts, tail) \<Rightarrow> write_parts download_dir parts fs)"

subsection \<open>Notions used in the properties\<close>

text \<open>
  What the start-of-part branch does once the header block is complete and decoded: it
  opens the file of the part, if the block has a name, and drops the block.
\<close>

definition start_part :: "ustr \<Rightarrow> ustr \<Rightarrow> nat \<Rightarrow> dstate \<Rightarrow> dstate result" where
  "start_part d hs h s =
     (case (case name_match hs of
              None \<Rightarrow> Inr (s\<lparr>current_file := None\<rparr>)
            | Some n \<Rightarrow> open_wb (path_join d n) (s\<lparr>current_file := None\<rparr>)) of
        Inl e \<Rightarrow> Inl e
      | Inr t \<Rightarrow> Inr (t\<lparr>buffer := drop (h + 4) (buffer t)\<rparr>))"

text \<open>The decoder holds no file object on which \<^verbatim>\<open>close()\<close> was called.\<close>

definition no_closed_file :: "dstate \<Rightarrow> bool" where
  "no_closed_file s = (case current_file s of None \<Rightarrow> True | Some f \<Rightarrow> \<not> is_closed f)"

text \<open>
  The state between two chunks: no closed file object, and at most \<open>CHUNK_SIZE\<close> bytes in
  the buffer while a part is open.
\<close>

definition settled :: "dstate \<Rightarrow> bool" where
  "settled s = (no_closed_file s \<and> (current_file s = None \<or> length (buffer s) \<le> CHUNK_SIZE))"

text \<open>
  What a run from the state \<open>s\<close> keeps, whether it returns or raises: the state it returns
  is settled; the only errors are the decoding error of a header block and what \<^verbatim>\<open>open\<close>
  raises; no file disappears; nothing is printed.
\<close>

definition kept :: "dstate \<Rightarrow> dstate result \<Rightarrow> bool" where
  "kept s r =
     (case r of
        Inr s' \<Rightarrow> settled s' \<and> dom (files s) \<subseteq> dom (files s') \<and> stdout s' = stdout s
                  \<and> refused s' = refused s
      | Inl (e, w) \<Rightarrow> (e = UnicodeDecodeError \<or> (\<exists>p. open_error (refused s) p = Some e))
                  \<and> dom (files s) \<subseteq> dom (files w) \<and> stdout w = stdout s)"

section \<open>Properties\<close>

subsection \<open>Searching\<close>

lemma startswith_append:
  "length p \<le> length xs \<Longrightarrow> startswith (xs @ ys) p = startswith xs p"
  by (auto simp: startswith_def prefix_append dest: prefix_length_le)

lemma startswith_appendI: "startswith xs p \<Longrightarrow> startswith (xs @ ys) p"
  by (simp add: startswith_def)

lemma startswith_length: "startswith xs p \<Longrightarrow> length p \<le> length xs"
  by (simp add: startswith_def prefix_length_le)

lemma find_bytes_Some_iff:
  "find_bytes xs p = Some i \<longleftrightarrow>
     i \<le> length xs \<and> startswith (drop i xs) p \<and> (\<forall>j<i. \<not> startswith (drop j xs) p)"
proof (induction xs arbitrary: i)
  case Nil
  show ?case by (auto simp: startswith_def)
next
  case (Cons x xs)
  show ?case
  proof (cases "startswith (x # xs) p")
    case True
    then show ?thesis
      by (cases i) auto
  next
    case False
    show ?thesis
    proof (cases i)
      case 0
      with False show ?thesis by simp
    next
      case (Suc k)
      have "(\<forall>j<Suc k. \<not> startswith (drop j (x # xs)) p) \<longleftrightarrow> (\<forall>j<k. \<not> startswith (drop j xs) p)"
        using False by (auto simp: less_Suc_eq_0_disj)
      with False Suc Cons.IH [of k] show ?thesis
        by auto
    qed
  qed
qed

lemma find_bytes_None_iff:
  "find_bytes xs p = None \<longleftrightarrow> (\<forall>j\<le>length xs. \<not> startswith (drop j xs) p)"
proof (induction xs)
  case Nil
  show ?case by (auto simp: startswith_def)
next
  case (Cons x xs)
  have "(\<forall>j\<le>Suc (length xs). \<not> startswith (drop j (x # xs)) p)
        \<longleftrightarrow> \<not> startswith (x # xs) p \<and> (\<forall>j\<le>length xs. \<not> startswith (drop j xs) p)"
  proof (intro iffI conjI allI impI)
    fix j
    assume a: "\<not> startswith (x # xs) p \<and> (\<forall>j\<le>length xs. \<not> startswith (drop j xs) p)"
      and "j \<le> Suc (length xs)"
    then show "\<not> startswith (drop j (x # xs)) p"
      by (cases j) auto
  next
    assume a: "\<forall>j\<le>Suc (length xs). \<not> startswith (drop j (x # xs)) p"
    from a [rule_format, of 0] show "\<not> startswith (x # xs) p" by simp
    fix j
    assume "j \<le> length xs"
    with a [rule_format, of "Suc j"] show "\<not> startswith (drop j xs) p" by simp
  qed
  with Cons.IH show ?case by auto
qed

lemma find_bytes_le: "find_bytes xs p = Some i \<Longrightarrow> i + length p \<le> length xs"
  by (auto simp: find_bytes_Some_iff dest!: startswith_length)

lemma find_bytes_append:
  assumes "find_bytes xs p = Some i"
  shows "find_bytes (xs @ ys) p = Some i"
proof -
  from assms have le: "i + length p \<le> length xs"
    by (rule find_bytes_le)
  have "startswith (drop j (xs @ ys)) p = startswith (drop j xs) p" if "j \<le> i" for j
    using that le by (simp add: startswith_append)
  with assms le show ?thesis
    by (auto simp: find_bytes_Some_iff)
qed

lemma find_bytes_append_later:
  assumes "find_bytes (xs @ ys) p = Some q" "find_bytes xs p = None"
  shows "length xs < q + length p"
proof (rule ccontr)
  assume "\<not> length xs < q + length p"
  then have le: "q + length p \<le> length xs" by simp
  then have "startswith (drop q (xs @ ys)) p = startswith (drop q xs) p"
    by (simp add: startswith_append)
  with assms le show False
    by (auto simp: find_bytes_Some_iff find_bytes_None_iff)
qed

lemma find_bytes_drop:
  assumes "find_bytes xs p = Some q" "k \<le> q"
  shows "find_bytes (drop k xs) p = Some (q - k)"
proof -
  have "\<not> startswith (drop (k + j) xs) p" if "j < q - k" for j
    using that assms by (auto simp: find_bytes_Some_iff)
  with assms show ?thesis
    by (auto simp: find_bytes_Some_iff add.commute)
qed

lemma find_bytes_drop_None:
  assumes "find_bytes xs p = None"
  shows "find_bytes (drop k xs) p = None"
proof -
  have "\<not> startswith (drop (k + j) xs) p" for j
  proof (cases "k + j \<le> length xs")
    case True
    with assms show ?thesis by (auto simp: find_bytes_None_iff)
  next
    case False
    then have "drop (k + j) xs = drop (length xs) xs" by simp
    with assms show ?thesis by (auto simp: find_bytes_None_iff simp del: drop_all)
  qed
  then show ?thesis
    by (auto simp: find_bytes_None_iff add.commute)
qed

lemma find_bytes_not_startswith:
  "find_bytes xs p = None \<Longrightarrow> \<not> startswith xs p"
  by (auto simp: find_bytes_None_iff dest: spec [of _ 0])

text \<open>The terminal marker begins with the start-of-part marker.\<close>

lemma terminal_imp_marker:
  "startswith xs (CRLF @ ''--'' @ b @ ''--'') \<Longrightarrow> startswith xs (CRLF @ ''--'' @ b)"
  by (auto simp: startswith_def prefix_def)

subsection \<open>One pass of the decoder loop\<close>

text \<open>
  The loop body, branch by branch. The start-of-part test comes first and the terminal
  marker begins with the start-of-part marker, so the branch of line 143 is never taken.
\<close>


lemma process_empty: "buffer s = [] \<Longrightarrow> process b d s = Inr s"
  by (simp add: process.simps)

lemma process_marker:
  assumes "startswith (buffer s) (CRLF @ ''--'' @ b)"
  shows "process b d s =
     (case find_bytes (buffer s) (CRLF @ CRLF) of
        None \<Rightarrow> Inr (s\<lparr>current_file := None\<rparr>)
      | Some h \<Rightarrow>
          (case decode_utf8 (take h (buffer s)) of
             None \<Rightarrow> Inl (UnicodeDecodeError, world.truncate s)
           | Some hs \<Rightarrow>
               (case start_part d hs h s of
                  Inl e \<Rightarrow> Inl e
                | Inr t \<Rightarrow> process b d t)))"
proof -
  from assms have ne: "buffer s \<noteq> []"
    by (auto simp: startswith_def CRLF_def)
  show ?thesis
    using assms ne
    by (subst process.simps)
      (auto simp: Let_def start_part_def world.truncate_def split: option.splits sum.splits)
qed

lemma process_idle:
  assumes "\<not> startswith (buffer s) (CRLF @ ''--'' @ b)" "current_file s = None"
  shows "process b d s = Inr s"
  using assms terminal_imp_marker [of "buffer s" b]
  by (subst process.simps) auto

lemma process_part:
  assumes "\<not> startswith (buffer s) (CRLF @ ''--'' @ b)" "current_file s = Some f" "buffer s \<noteq> []"
  shows "process b d s =
     (case find_bytes (buffer s) (CRLF @ ''--'' @ b) of
        Some n \<Rightarrow>
          (case file_write f (take n (buffer s)) s of
             Inl e \<Rightarrow> Inl e
           | Inr s' \<Rightarrow> process b d (s'\<lparr>buffer := drop n (buffer s')\<rparr>))
      | None \<Rightarrow>
          if CHUNK_SIZE < length (buffer s) then
            (case file_write f (take (length (buffer s) - CHUNK_SIZE) (buffer s)) s of
               Inl e \<Rightarrow> Inl e
             | Inr s' \<Rightarrow> Inr (s'\<lparr>buffer := drop (length (buffer s) - CHUNK_SIZE) (buffer s')\<rparr>))
          else Inr s)"
  using assms terminal_imp_marker [of "buffer s" b]
  by (subst process.simps) (auto simp: Let_def file_write_def split: option.splits sum.splits)

subsection \<open>Feeding a buffer in two steps\<close>

lemma start_part_more:
  "h + 4 \<le> length (buffer s) \<Longrightarrow>
   start_part d hs h (s\<lparr>buffer := buffer s @ c\<rparr>)
   = (case start_part d hs h s of
        Inl e \<Rightarrow> Inl e
      | Inr t \<Rightarrow> Inr (t\<lparr>buffer := buffer t @ c\<rparr>))"
  by (simp add: start_part_def open_wb_def world.truncate_def split: option.splits)

lemma buffer_start_part:
  "start_part d hs h s = Inr t \<Longrightarrow> buffer t = drop (h + 4) (buffer s)"
  by (auto simp: start_part_def open_wb_def split: option.splits)

lemma start_part_close: "start_part d hs h (s\<lparr>current_file := None\<rparr>) = start_part d hs h s"
  by (simp add: start_part_def split: option.splits)

lemma process_marker_close:
  assumes "startswith (buffer s) (CRLF @ ''--'' @ b)"
  shows "process b d (s\<lparr>current_file := None\<rparr>) = process b d s"
  using assms
  by (simp add: process_marker start_part_close world.truncate_def split: option.splits)

lemma process_eqI: "s = t \<Longrightarrow> process b d s = process b d t"
  by simp

lemma append_file_twice:
  "append_file p y (append_file p x fs) = append_file p (x @ y) fs"
  by (auto simp: append_file_def split: option.splits)

lemma process_append:
  assumes len: "length b + 3 \<le> CHUNK_SIZE"
  shows "(case process b d s of
            Inl e \<Rightarrow> Inl e
          | Inr s' \<Rightarrow> process b d (s'\<lparr>buffer := buffer s' @ c\<rparr>))
         = process b d (s\<lparr>buffer := buffer s @ c\<rparr>)"
proof (induction "length (buffer s)" arbitrary: s rule: less_induct)
  case less
  let ?m = "CRLF @ ''--'' @ b"
  let ?B = "buffer s"
  have mlen: "length ?m \<le> CHUNK_SIZE + 1"
    using len by (simp add: CRLF_def)
  show ?case
  proof (cases "?B = []")
    case True
    then show ?thesis
      by (simp add: process_empty)
  next
    case ne: False
    show ?thesis
    proof (cases "startswith ?B ?m")
      case sw: True
      then have sw': "startswith (buffer (s\<lparr>buffer := ?B @ c\<rparr>)) ?m"
        by (simp add: startswith_appendI)
      show ?thesis
      proof (cases "find_bytes ?B (CRLF @ CRLF)")
        case None
        with sw have "process b d s = Inr (s\<lparr>current_file := None\<rparr>)"
          by (simp add: process_marker)
        moreover have "process b d (s\<lparr>current_file := None, buffer := ?B @ c\<rparr>)
                       = process b d (s\<lparr>buffer := ?B @ c\<rparr>)"
        proof -
          have "process b d (s\<lparr>current_file := None, buffer := ?B @ c\<rparr>)
                = process b d ((s\<lparr>buffer := ?B @ c\<rparr>)\<lparr>current_file := None\<rparr>)"
            by (rule process_eqI) simp
          also have "\<dots> = process b d (s\<lparr>buffer := ?B @ c\<rparr>)"
            by (rule process_marker_close [OF sw'])
          finally show ?thesis .
        qed
        ultimately show ?thesis
          by simp
      next
        case (Some h)
        then have h4: "h + 4 \<le> length ?B"
          using find_bytes_le [of ?B "CRLF @ CRLF" h] by (simp add: CRLF_def)
        from Some have f': "find_bytes (?B @ c) (CRLF @ CRLF) = Some h"
          by (rule find_bytes_append)
        show ?thesis
        proof (cases "decode_utf8 (take h ?B)")
          case None
          with sw sw' Some f' h4 show ?thesis
            by (simp add: process_marker world.truncate_def)
        next
          case (Some hs)
          note hs = Some
          have more: "start_part d hs h (s\<lparr>buffer := ?B @ c\<rparr>)
                = (case start_part d hs h s of
                     Inl e \<Rightarrow> Inl e
                   | Inr t \<Rightarrow> Inr (t\<lparr>buffer := buffer t @ c\<rparr>))"
            using h4 by (rule start_part_more)
          show ?thesis
          proof (cases "start_part d hs h s")
            case (Inl e)
            have "process b d s = Inl e"
              using sw \<open>find_bytes ?B (CRLF @ CRLF) = Some h\<close> hs Inl
              by (simp add: process_marker)
            moreover have "process b d (s\<lparr>buffer := ?B @ c\<rparr>) = Inl e"
              using sw' f' hs h4 more Inl
              by (simp add: process_marker)
            ultimately show ?thesis by simp
          next
            case (Inr t)
            have lt: "length (buffer t) < length ?B"
              using ne buffer_start_part [OF Inr] by simp
            have "process b d s = process b d t"
              using sw \<open>find_bytes ?B (CRLF @ CRLF) = Some h\<close> hs Inr
              by (simp add: process_marker)
            moreover have "process b d (s\<lparr>buffer := ?B @ c\<rparr>)
                           = process b d (t\<lparr>buffer := buffer t @ c\<rparr>)"
              using sw' f' hs h4 more Inr
              by (simp add: process_marker)
            ultimately show ?thesis
              using less [OF lt] by simp
          qed
        qed
      qed
    next
      case nsw: False
      show ?thesis
      proof (cases "current_file s")
        case None
        with nsw show ?thesis
          by (simp add: process_idle)
      next
        case (Some f)
        note cf = Some
        have P: "process b d s =
           (case find_bytes ?B ?m of
              Some n \<Rightarrow>
                (case file_write f (take n ?B) s of
                   Inl e \<Rightarrow> Inl e
                 | Inr s' \<Rightarrow> process b d (s'\<lparr>buffer := drop n (buffer s')\<rparr>))
            | None \<Rightarrow>
                if CHUNK_SIZE < length ?B then
                  (case file_write f (take (length ?B - CHUNK_SIZE) ?B) s of
                     Inl e \<Rightarrow> Inl e
                   | Inr s' \<Rightarrow> Inr (s'\<lparr>buffer := drop (length ?B - CHUNK_SIZE) (buffer s')\<rparr>))
                else Inr s)"
          using nsw cf ne by (rule process_part)
        show ?thesis
        proof (cases "find_bytes ?B ?m")
          case (Some n)
          then have nle: "n + length ?m \<le> length ?B"
            by (rule find_bytes_le)
          from Some nsw have n0: "0 < n"
            using find_bytes_zero [of ?B ?m] by (cases n) auto
          have nsw': "\<not> startswith (?B @ c) ?m"
            using nsw nle by (simp add: startswith_append)
          have f': "find_bytes (?B @ c) ?m = Some n"
            using Some by (rule find_bytes_append)
          have P': "process b d (s\<lparr>buffer := ?B @ c\<rparr>) =
              (case file_write f (take n (?B @ c)) (s\<lparr>buffer := ?B @ c\<rparr>) of
                 Inl e \<Rightarrow> Inl e
               | Inr s' \<Rightarrow> process b d (s'\<lparr>buffer := drop n (buffer s')\<rparr>))"
            using nsw' cf ne f'
            by (subst process_part [where f = f]) simp_all
          show ?thesis
          proof (cases "is_closed f")
            case True
            with P P' Some show ?thesis
              by (simp add: file_write_def world.truncate_def)
          next
            case False
            let ?t = "s\<lparr>files := append_file (fpath f) (take n ?B) (files s), buffer := drop n ?B\<rparr>"
            have lt: "length (buffer ?t) < length ?B"
              using n0 ne by simp
            have "process b d s = process b d ?t"
              using P Some False by (simp add: file_write_def)
            moreover have "process b d (s\<lparr>buffer := ?B @ c\<rparr>) = process b d (?t\<lparr>buffer := buffer ?t @ c\<rparr>)"
              using P' False nle by (simp add: file_write_def)
            ultimately show ?thesis
              using less [OF lt] by simp
          qed
        next
          case None
          show ?thesis
          proof (cases "CHUNK_SIZE < length ?B")
            case False
            with P None show ?thesis by simp
          next
            case big: True
            define k where "k = length ?B - CHUNK_SIZE"
            define BC where "BC = ?B @ c"
            have k0: "0 < k" and kle: "k \<le> length ?B" and klen: "length ?B = k + CHUNK_SIZE"
              using big by (simp_all add: k_def)
            have lenBC: "length BC - CHUNK_SIZE = k + length c" and bigBC: "CHUNK_SIZE < length BC"
              using klen k0 by (simp_all add: BC_def)
            have takeBC: "take k BC = take k ?B" and dropBC: "drop k BC = drop k ?B @ c"
              using kle by (simp_all add: BC_def)
            have mB: "length ?m \<le> length ?B"
              using mlen big by simp
            have nsw': "\<not> startswith BC ?m"
              unfolding BC_def using nsw mB by (simp add: startswith_append)
            have neBC: "BC \<noteq> []"
              using ne by (simp add: BC_def)
            have P': "process b d (s\<lparr>buffer := BC\<rparr>) =
               (case find_bytes BC ?m of
                  Some n \<Rightarrow>
                    (case file_write f (take n BC) (s\<lparr>buffer := BC\<rparr>) of
                       Inl e \<Rightarrow> Inl e
                     | Inr s' \<Rightarrow> process b d (s'\<lparr>buffer := drop n (buffer s')\<rparr>))
                | None \<Rightarrow>
                    (case file_write f (take (k + length c) BC) (s\<lparr>buffer := BC\<rparr>) of
                       Inl e \<Rightarrow> Inl e
                     | Inr s' \<Rightarrow> Inr (s'\<lparr>buffer := drop (k + length c) (buffer s')\<rparr>)))"
              using nsw' cf neBC bigBC
              by (subst process_part [where f = f])
                (simp_all add: lenBC split: option.splits cong: sum.case_cong)
            show ?thesis
            proof (cases "is_closed f")
              case True
              with P P' None big show ?thesis
                unfolding BC_def [symmetric]
                by (simp add: file_write_def world.truncate_def split: option.splits)
            next
              case opn: False
              let ?t = "s\<lparr>files := append_file (fpath f) (take k ?B) (files s), buffer := drop k ?B\<rparr>"
              let ?t' = "s\<lparr>files := append_file (fpath f) (take k BC) (files s), buffer := drop k BC\<rparr>"
              have L: "process b d s = Inr ?t"
                using P None big opn by (simp add: file_write_def k_def)
              have tt': "?t\<lparr>buffer := buffer ?t @ c\<rparr> = ?t'"
                by (simp add: takeBC dropBC)
              have bt': "buffer ?t' = drop k BC"
                by simp
              have cft': "current_file ?t' = Some f"
                using cf by simp
              have net': "buffer ?t' \<noteq> []"
                using klen by (simp add: BC_def CHUNK_SIZE_def)
              have Pt: "process b d ?t' =
                 (case find_bytes (drop k BC) ?m of
                    Some n \<Rightarrow>
                      process b d
                        (s\<lparr>files := append_file (fpath f) (take k BC @ take n (drop k BC)) (files s),
                           buffer := drop n (drop k BC)\<rparr>)
                  | None \<Rightarrow>
                      if 0 < length c
                      then Inr (s\<lparr>files := append_file (fpath f)
                                           (take k BC @ take (length c) (drop k BC)) (files s),
                                  buffer := drop (length c) (drop k BC)\<rparr>)
                      else Inr ?t')" if "\<not> startswith (drop k BC) ?m"
              proof -
                have "length BC = k + CHUNK_SIZE + length c"
                  using klen by (simp add: BC_def)
                then have "length (drop k BC) - CHUNK_SIZE = length c"
                  and "CHUNK_SIZE < length (drop k BC) \<longleftrightarrow> 0 < length c"
                  by simp_all
                then show ?thesis
                  using that cft' net' opn
                  by (subst process_part [where f = f])
                    (simp_all add: file_write_def append_file_twice split: option.splits)
              qed
              show ?thesis
              proof (cases "find_bytes BC ?m")
                case (Some q)
                have "length ?B < q + length ?m"
                  using Some None unfolding BC_def by (rule find_bytes_append_later)
                then have kq: "k \<le> q"
                  using mlen klen by simp
                have R: "process b d (s\<lparr>buffer := BC\<rparr>)
                    = process b d (s\<lparr>files := append_file (fpath f) (take q BC) (files s),
                                      buffer := drop q BC\<rparr>)"
                  using P' Some opn by (simp add: file_write_def)
                show ?thesis
                proof (cases "q = k")
                  case True
                  with L R tt' show ?thesis
                    unfolding BC_def [symmetric] by simp
                next
                  case False
                  with kq have lt: "k < q" by simp
                  have fq: "find_bytes (drop k BC) ?m = Some (q - k)"
                    using Some kq by (rule find_bytes_drop)
                  have nswt: "\<not> startswith (drop k BC) ?m"
                    using Some lt by (simp add: find_bytes_Some_iff)
                  have tk: "take k BC @ take (q - k) (drop k BC) = take q BC"
                    using kq by (metis le_add_diff_inverse take_add)
                  have dk: "drop (q - k) (drop k BC) = drop q BC"
                    using kq by (simp only: drop_drop le_add_diff_inverse2)
                  have "process b d ?t'
                    = process b d (s\<lparr>files := append_file (fpath f) (take q BC) (files s),
                                      buffer := drop q BC\<rparr>)"
                    by (simp only: Pt [OF nswt] fq option.case tk dk)
                  with L R tt' show ?thesis
                    unfolding BC_def [symmetric] by simp
                qed
              next
                case N': None
                have R: "process b d (s\<lparr>buffer := BC\<rparr>)
                    = Inr (s\<lparr>files := append_file (fpath f) (take (k + length c) BC) (files s),
                               buffer := drop (k + length c) BC\<rparr>)"
                  using P' N' opn by (simp add: file_write_def)
                have fq: "find_bytes (drop k BC) ?m = None"
                  using N' by (rule find_bytes_drop_None)
                then have nswt: "\<not> startswith (drop k BC) ?m"
                  by (rule find_bytes_not_startswith)
                have tk: "take k BC @ take (length c) (drop k BC) = take (k + length c) BC"
                  by (simp only: take_add)
                have dk: "drop (length c) (drop k BC) = drop (k + length c) BC"
                  by (simp only: drop_drop add.commute)
                have "process b d ?t'
                    = Inr (s\<lparr>files := append_file (fpath f) (take (k + length c) BC) (files s),
                               buffer := drop (k + length c) BC\<rparr>)"
                proof (cases "c = []")
                  case True
                  with fq show ?thesis
                    by (simp add: Pt [OF nswt])
                next
                  case False
                  then show ?thesis
                    by (simp only: Pt [OF nswt] fq option.case tk dk length_greater_0_conv
                          not_False_eq_True if_True)
                qed
                with L R tt' show ?thesis
                  unfolding BC_def [symmetric] by simp
              qed
            qed
          qed
        qed
      qed
    qed
  qed
qed


subsection \<open>Chunks\<close>

lemma feed_feed:
  assumes "length b + 3 \<le> CHUNK_SIZE"
  shows "(case feed b d c1 s of Inl e \<Rightarrow> Inl e | Inr s' \<Rightarrow> feed b d c2 s') = feed b d (c1 @ c2) s"
proof (cases "c1 = []")
  case True
  then show ?thesis by (simp add: feed_def)
next
  case c1: False
  show ?thesis
  proof (cases "c2 = []")
    case True
    then show ?thesis
      by (cases "feed b d c1 s") (simp_all add: feed_def)
  next
    case False
    with c1 process_append [OF assms, where d = d and s = "s\<lparr>buffer := buffer s @ c1\<rparr>" and c = c2]
    show ?thesis
      by (simp add: feed_def cong: sum.case_cong)
  qed
qed

lemma iter_content_concat:
  assumes "length b + 3 \<le> CHUNK_SIZE"
  shows "iter_content b d cs s = feed b d (concat cs) s"
proof (induction cs arbitrary: s)
  case Nil
  show ?case by (simp add: feed_def)
next
  case (Cons c cs)
  have "iter_content b d (c # cs) s
        = (case feed b d c s of Inl e \<Rightarrow> Inl e | Inr s' \<Rightarrow> feed b d (concat cs) s')"
    by (simp add: Cons.IH cong: sum.case_cong)
  also have "\<dots> = feed b d (c @ concat cs) s"
    by (rule feed_feed [OF assms])
  finally show ?case by simp
qed

subsection \<open>The decoder against the reference parser\<close>

lemma reference_parse_Nil:
  assumes "reference_parse b B = Some ([], tail)"
  shows "startswith B (CRLF @ ''--'' @ b @ ''--'') \<and> tail = B"
  using assms
  by (subst (asm) reference_parse.simps) (auto split: if_splits option.splits simp: Let_def)

lemma reference_parse_Cons:
  assumes "reference_parse b B = Some ((name, payload) # ps, tail)"
  shows "startswith B (CRLF @ ''--'' @ b) \<and>
         (\<exists>h hs n. find_bytes B (CRLF @ CRLF) = Some h \<and> decode_utf8 (take h B) = Some hs
            \<and> name_match hs = Some name
            \<and> find_bytes (drop (h + 4) B) (CRLF @ ''--'' @ b) = Some n
            \<and> payload = take n (drop (h + 4) B)
            \<and> reference_parse b (drop n (drop (h + 4) B)) = Some (ps, tail))"
  using assms
  by (subst (asm) reference_parse.simps) (auto split: if_splits option.splits simp: Let_def)

lemma process_reference:
  assumes "reference_parse b B = Some (parts, tail)" "find_bytes tail (CRLF @ CRLF) = None"
    "buffer s = B" "\<forall>p\<in>set parts. open_error (refused s) (path_join d (fst p)) = None"
  shows "\<exists>s'. process b d s = Inr s' \<and> files s' = write_parts d parts (files s)
          \<and> stdout s' = stdout s \<and> current_file s' = None \<and> buffer s' = tail"
  using assms
proof (induction parts arbitrary: B s)
  case Nil
  then have sw: "startswith (buffer s) (CRLF @ ''--'' @ b)" and t: "tail = buffer s"
    using reference_parse_Nil [of b B tail] terminal_imp_marker [of B b] by auto
  with Nil.prems(2) show ?case
    by (simp add: process_marker)
next
  case (Cons part ps)
  obtain name payload where part: "part = (name, payload)"
    by (cases part)
  from Cons.prems(1) [unfolded part, THEN reference_parse_Cons]
  obtain h hs n where sw: "startswith B (CRLF @ ''--'' @ b)"
    and h: "find_bytes B (CRLF @ CRLF) = Some h"
    and hs: "decode_utf8 (take h B) = Some hs"
    and nm: "name_match hs = Some name"
    and n: "find_bytes (drop (h + 4) B) (CRLF @ ''--'' @ b) = Some n"
    and payload: "payload = take n (drop (h + 4) B)"
    and rec: "reference_parse b (drop n (drop (h + 4) B)) = Some (ps, tail)"
    by blast
  let ?p = "path_join d name"
  let ?rest = "drop (h + 4) B"
  let ?t = "s\<lparr>files := (files s)(?p \<mapsto> []), current_file := Some (FileObj ?p False),
               buffer := ?rest\<rparr>"
  have opn: "open_error (refused s) ?p = None"
    using Cons.prems(4) part by simp
  have t: "start_part d hs h s = Inr ?t"
    using nm opn Cons.prems(3) by (simp add: start_part_def open_wb_def)
  have P1: "process b d s = process b d ?t"
    using sw h hs Cons.prems(3) t by (simp add: process_marker)
  let ?u = "s\<lparr>files := (files s)(?p \<mapsto> payload), current_file := Some (FileObj ?p False),
                buffer := drop n ?rest\<rparr>"
  have P2: "process b d ?t = process b d ?u"
  proof (cases n)
    case 0
    then have "?u = ?t"
      using payload by simp
    then show ?thesis by simp
  next
    case (Suc k)
    with n have nsw: "\<not> startswith (buffer ?t) (CRLF @ ''--'' @ b)"
      by (auto simp: find_bytes_Some_iff)
    have ne: "buffer ?t \<noteq> []"
      using find_bytes_le [OF n] Suc by auto
    have cf: "current_file ?t = Some (FileObj ?p False)"
      by simp
    have "process b d ?t = process b d ((s\<lparr>files := append_file ?p (take n ?rest) ((files s)(?p \<mapsto> [])),
                current_file := Some (FileObj ?p False), buffer := ?rest\<rparr>)\<lparr>buffer := drop n ?rest\<rparr>)"
      apply (subst process_part [OF nsw cf ne])
      using n
      apply (simp add: file_write_def)
      apply (rule process_eqI)
      apply simp
      done
    also have "\<dots> = process b d ?u"
      by (rule process_eqI) (simp add: append_file_def payload)
    finally show ?thesis .
  qed
  have "buffer ?u = drop n ?rest"
    by simp
  moreover have "\<forall>p\<in>set ps. open_error (refused ?u) (path_join d (fst p)) = None"
    using Cons.prems(4) by simp
  ultimately have "\<exists>s'. process b d ?u = Inr s' \<and> files s' = write_parts d ps (files ?u)
          \<and> stdout s' = stdout ?u \<and> current_file s' = None \<and> buffer s' = tail"
    by (rule Cons.IH [OF rec Cons.prems(2)])
  then
  obtain s' where "process b d ?u = Inr s'" "files s' = write_parts d ps (files ?u)"
    "stdout s' = stdout ?u" "current_file s' = None" "buffer s' = tail"
    by blast
  with P1 P2 show ?case
    by (simp add: part)
qed

lemma reference_parse_nonempty: "reference_parse b [] = None"
  by (subst reference_parse.simps) (simp add: startswith_def CRLF_def)

text \<open>
  Where the decoder and the reference parser agree: on a stream of parts and a terminal
  marker with no empty line from the terminal marker on, for a boundary of up to
  \<open>CHUNK_SIZE - 3\<close> bytes, when the file of every part can be opened. The files are then
  those of the reference parse, however the stream is cut into chunks.
\<close>

lemma decoder_agrees_with_reference:
  assumes "reference_parse b stream = Some (parts, tail)"
    and "find_bytes tail (CRLF @ CRLF) = None"
    and "length b + 3 \<le> CHUNK_SIZE"
    and "\<forall>p\<in>set parts. open_error (refused w) (path_join d (fst p)) = None"
    and "concat cs = stream"
  shows "\<exists>s. iter_content b d cs (init w) = Inr s \<and> files s = write_parts d parts (files w)"
proof -
  from assms(1) have ne: "stream \<noteq> []"
    using reference_parse_nonempty by auto
  have "iter_content b d cs (init w) = feed b d stream (init w)"
    using iter_content_concat [OF assms(3)] assms(5) by simp
  also have "\<dots> = process b d ((init w)\<lparr>buffer := stream\<rparr>)"
    using ne by (simp add: feed_def init_def)
  finally have run: "iter_content b d cs (init w) = process b d ((init w)\<lparr>buffer := stream\<rparr>)" .
  have "\<exists>s'. process b d ((init w)\<lparr>buffer := stream\<rparr>) = Inr s'
          \<and> files s' = write_parts d parts (files ((init w)\<lparr>buffer := stream\<rparr>))
          \<and> stdout s' = stdout ((init w)\<lparr>buffer := stream\<rparr>) \<and> current_file s' = None
          \<and> buffer s' = tail"
    using assms(4) by (intro process_reference [OF assms(1,2)]) (simp_all add: init_def)
  with run show ?thesis
    by (auto simp: init_def)
qed

subsection \<open>What the loop keeps\<close>

lemma dom_append_file: "dom (append_file p x fs) = insert p (dom fs)"
  by (auto simp: append_file_def)

lemma kept_step:
  assumes "kept t r" and "dom (files s) \<subseteq> dom (files t)" and "stdout t = stdout s"
    and "refused t = refused s"
  shows "kept s r"
  using assms by (auto simp: kept_def split: sum.splits)

lemma start_part_Inr:
  assumes "start_part d hs h s = Inr t"
  shows "no_closed_file t" and "dom (files s) \<subseteq> dom (files t)" and "stdout t = stdout s"
    and "refused t = refused s"
  using assms
  by (auto simp: start_part_def open_wb_def no_closed_file_def split: option.splits)

lemma start_part_Inl:
  assumes "start_part d hs h s = Inl (e, w)"
  shows "(\<exists>p. open_error (refused s) p = Some e) \<and> files w = files s \<and> stdout w = stdout s"
  using assms
  by (auto simp: start_part_def open_wb_def world.truncate_def split: option.splits)

lemma process_safe:
  assumes "no_closed_file s"
  shows "kept s (process b d s)"
  using assms
proof (induction "length (buffer s)" arbitrary: s rule: less_induct)
  case less
  let ?m = "CRLF @ ''--'' @ b"
  show ?case
  proof (cases "buffer s = []")
    case True
    with less.prems show ?thesis
      by (simp add: process_empty kept_def settled_def)
  next
    case ne: False
    show ?thesis
    proof (cases "startswith (buffer s) ?m")
      case sw: True
      show ?thesis
      proof (cases "find_bytes (buffer s) (CRLF @ CRLF)")
        case None
        with sw show ?thesis
          by (simp add: process_marker no_closed_file_def kept_def settled_def)
      next
        case (Some h)
        show ?thesis
        proof (cases "decode_utf8 (take h (buffer s))")
          case None
          with sw Some show ?thesis
            by (simp add: process_marker world.truncate_def kept_def)
        next
          case (Some hs)
          show ?thesis
          proof (cases "start_part d hs h s")
            case (Inl ew)
            obtain e w where ew: "ew = (e, w)" by (cases ew)
            have "process b d s = Inl (e, w)"
              using sw \<open>find_bytes (buffer s) (CRLF @ CRLF) = Some h\<close> Some Inl ew
              by (simp add: process_marker)
            with start_part_Inl [of d hs h s e w] Inl ew show ?thesis
              by (auto simp: kept_def)
          next
            case (Inr t)
            have "length (buffer t) < length (buffer s)"
              using ne buffer_start_part [OF Inr] by simp
            from less.hyps [OF this start_part_Inr(1) [OF Inr]]
            have "kept s (process b d t)"
              using start_part_Inr(2,3,4) [OF Inr] by (rule kept_step)
            moreover have "process b d s = process b d t"
              using sw \<open>find_bytes (buffer s) (CRLF @ CRLF) = Some h\<close> Some Inr
              by (simp add: process_marker)
            ultimately show ?thesis by simp
          qed
        qed
      qed
    next
      case nsw: False
      show ?thesis
      proof (cases "current_file s")
        case None
        with nsw less.prems show ?thesis
          by (simp add: process_idle kept_def settled_def)
      next
        case (Some f)
        with less.prems have opn: "\<not> is_closed f"
          by (simp add: no_closed_file_def)
        note P = process_part [OF nsw Some ne, of d]
        show ?thesis
        proof (cases "find_bytes (buffer s) ?m")
          case None
          with P opn Some less.prems show ?thesis
            by (auto simp: file_write_def no_closed_file_def dom_append_file kept_def settled_def)
        next
          case (Some n)
          with nsw have n0: "0 < n"
            using find_bytes_zero [of "buffer s" ?m] by (cases n) auto
          let ?t = "s\<lparr>files := append_file (fpath f) (take n (buffer s)) (files s),
                       buffer := drop n (buffer s)\<rparr>"
          have lt: "length (buffer ?t) < length (buffer s)"
            using n0 ne by simp
          have inv: "no_closed_file ?t"
            using less.prems by (simp add: no_closed_file_def)
          have "process b d s = process b d ?t"
            using P Some opn by (simp add: file_write_def)
          moreover from less.hyps [OF lt inv]
          have "kept s (process b d ?t)"
            by (rule kept_step) (auto simp: dom_append_file)
          ultimately show ?thesis by simp
        qed
      qed
    qed
  qed
qed

lemma iter_content_safe:
  assumes "settled s"
  shows "kept s (iter_content b d cs s)"
  using assms
proof (induction cs arbitrary: s)
  case Nil
  then show ?case by (simp add: kept_def)
next
  case (Cons c cs)
  show ?case
  proof (cases "c = []")
    case True
    with Cons show ?thesis by (simp add: feed_def)
  next
    case False
    let ?s = "s\<lparr>buffer := buffer s @ c\<rparr>"
    have "no_closed_file ?s"
      using Cons.prems by (simp add: settled_def no_closed_file_def)
    then have k: "kept ?s (process b d ?s)"
      by (rule process_safe)
    show ?thesis
    proof (cases "process b d ?s")
      case (Inl ew)
      with False k show ?thesis
        by (auto simp: feed_def kept_def)
    next
      case (Inr s1)
      with k have s1: "settled s1" "dom (files s) \<subseteq> dom (files s1)" "stdout s1 = stdout s"
        "refused s1 = refused s"
        by (auto simp: kept_def)
      from Cons.IH [OF s1(1)] have "kept s (iter_content b d cs s1)"
        using s1(2,3,4) by (rule kept_step)
      with Inr False show ?thesis
        by (simp add: feed_def)
    qed
  qed
qed

lemma settled_init: "settled (init w)"
  by (simp add: settled_def no_closed_file_def init_def)

subsection \<open>The withheld tail\<close>

text \<open>The definitions that evaluate the decoder on a concrete stream.\<close>

lemmas eval_simps = feed_def init_def process.simps startswith_def CRLF_def name_match_def
  part_name_at_def lit_def is_space_def cont_def Let_def open_wb_def open_error_def file_write_def
  append_file_def path_join_def CHUNK_SIZE_def world.truncate_def close_def

text \<open>
  Claim C4, as stated, fails. With the boundary \<^verbatim>\<open>b\<close> the bound \<open>len(boundary_token) + 4\<close> is
  5 bytes. After the header block and eight payload bytes with no marker among them, the
  decoder waits with a part open and all eight bytes still in the buffer: the whole
  payload received so far is held back.
\<close>

theorem withheld_tail_exceeds_boundary_length:
  "iter_content ''b'' (lit ''out'')
     [CRLF @ ''--b'' @ CRLF @ ''X-Part-Name: '' @ [CHR 0x22] @ ''a'' @ [CHR 0x22] @ CRLF @ CRLF
      @ ''payload!'']
     (init \<lparr>files = Map.empty, stdout = [], refused = (\<lambda>p. None)\<rparr>)
   = Inr \<lparr>files = [lit ''out/a'' \<mapsto> []], stdout = [], refused = (\<lambda>p. None),
          current_file = Some (FileObj (lit ''out/a'') False), buffer = ''payload!''\<rparr>
   \<and> find_bytes ''payload!'' (CRLF @ ''--'' @ ''b'') = None
   \<and> length ''b'' + 4 < length ''payload!''"
  by (simp add: eval_simps)

text \<open>
  Claim C4, amended. The tail is cut by \<^verbatim>\<open>safe_length = max(0, len(buffer) - CHUNK_SIZE)\<close>:
  whenever the decoder waits for the next chunk with a part open, after any sequence of
  chunks of any sizes, the buffer holds at most \<open>CHUNK_SIZE\<close> bytes, whatever the length
  of the boundary.
\<close>

theorem withheld_tail_at_most_chunk_size:
  assumes "iter_content b d cs (init w) = Inr s" and "current_file s \<noteq> None"
  shows "length (buffer s) \<le> CHUNK_SIZE"
  using iter_content_safe [OF settled_init [of w], where b = b and d = d and cs = cs] assms
  by (simp add: kept_def settled_def)

theorem withheld_tail_at_most_chunk_size_witness:
  "iter_content ''b'' (lit ''out'')
     [CRLF @ ''--b'' @ CRLF @ ''X-Part-Name: '' @ [CHR 0x22] @ ''a'' @ [CHR 0x22] @ CRLF @ CRLF
      @ ''payload!'']
     (init \<lparr>files = Map.empty, stdout = [], refused = (\<lambda>p. None)\<rparr>)
   = Inr \<lparr>files = [lit ''out/a'' \<mapsto> []], stdout = [], refused = (\<lambda>p. None),
          current_file = Some (FileObj (lit ''out/a'') False), buffer = ''payload!''\<rparr>
   \<and> current_file \<lparr>files = [lit ''out/a'' \<mapsto> []], stdout = [], refused = (\<lambda>p. None),
          current_file = Some (FileObj (lit ''out/a'') False), buffer = ''payload!''\<rparr> \<noteq> None
   \<and> length (buffer \<lparr>files = [lit ''out/a'' \<mapsto> []], stdout = [], refused = (\<lambda>p. None),
          current_file = Some (FileObj (lit ''out/a'') False), buffer = ''payload!''\<rparr>) \<le> CHUNK_SIZE"
proof -
  have run: "iter_content ''b'' (lit ''out'')
     [CRLF @ ''--b'' @ CRLF @ ''X-Part-Name: '' @ [CHR 0x22] @ ''a'' @ [CHR 0x22] @ CRLF @ CRLF
      @ ''payload!'']
     (init \<lparr>files = Map.empty, stdout = [], refused = (\<lambda>p. None)\<rparr>)
   = Inr \<lparr>files = [lit ''out/a'' \<mapsto> []], stdout = [], refused = (\<lambda>p. None),
          current_file = Some (FileObj (lit ''out/a'') False), buffer = ''payload!''\<rparr>"
    by (simp add: eval_simps)
  have "length (buffer \<lparr>files = [lit ''out/a'' \<mapsto> []], stdout = [], refused = (\<lambda>p. None),
          current_file = Some (FileObj (lit ''out/a'') False), buffer = ''payload!''\<rparr>) \<le> CHUNK_SIZE"
    by (rule withheld_tail_at_most_chunk_size [OF run]) simp
  with run show ?thesis
    by simp
qed


subsection \<open>The terminal marker\<close>

text \<open>
  A buffer that begins with the terminal marker is handled by the start-of-part branch,
  whatever follows the marker.
\<close>

lemma terminal_marker_taken_as_part_start:
  assumes "startswith (buffer s) (CRLF @ ''--'' @ b @ ''--'')"
  shows "process b d s =
     (case find_bytes (buffer s) (CRLF @ CRLF) of
        None \<Rightarrow> Inr (s\<lparr>current_file := None\<rparr>)
      | Some h \<Rightarrow>
          (case decode_utf8 (take h (buffer s)) of
             None \<Rightarrow> Inl (UnicodeDecodeError, world.truncate s)
           | Some hs \<Rightarrow>
               (case start_part d hs h s of
                  Inl e \<Rightarrow> Inl e
                | Inr t \<Rightarrow> process b d t)))"
  by (rule process_marker) (rule terminal_imp_marker [OF assms])

text \<open>
  Claim C3 does not hold of the code. The test for the start-of-part marker (line 123)
  comes before the test for the terminal marker (line 143) and holds whenever that one
  does, so the branch that prints \<^verbatim>\<open>Done\<close> and stops is never taken. Here a header block and
  a payload follow the terminal marker: the decoder reads on, creates the file \<^verbatim>\<open>x\<close> and
  writes the payload to it, and prints nothing. The second stream is the terminal marker
  alone: no file is created and the decoder returns normally, as the claim says.
\<close>

theorem bytes_after_terminal_marker_are_decoded:
  "iter_content ''B'' (lit ''out'')
     [CRLF @ ''--B--'' @ CRLF @ ''X-Part-Name: '' @ [CHR 0x22] @ ''x'' @ [CHR 0x22] @ CRLF @ CRLF
      @ ''zz'' @ CRLF @ ''--B'']
     (init \<lparr>files = Map.empty, stdout = [], refused = (\<lambda>p. None)\<rparr>)
   = Inr \<lparr>files = [lit ''out/x'' \<mapsto> ''zz''], stdout = [], refused = (\<lambda>p. None), current_file = None,
          buffer = CRLF @ ''--B''\<rparr>
   \<and> iter_content ''B'' (lit ''out'') [CRLF @ ''--B--'' @ CRLF]
       (init \<lparr>files = Map.empty, stdout = [], refused = (\<lambda>p. None)\<rparr>)
     = Inr \<lparr>files = Map.empty, stdout = [], refused = (\<lambda>p. None), current_file = None,
            buffer = CRLF @ ''--B--'' @ CRLF\<rparr>"
  by (simp add: eval_simps)


text \<open>
  Claim C1 does not hold of the code. The stream below is well formed: one part \<^verbatim>\<open>a\<close> with
  the payload \<^verbatim>\<open>hello\<close>, the terminal marker, and bytes after it. The reference parse stops
  at the terminal marker and gives the one file \<^verbatim>\<open>out/a\<close>. The decoder takes the terminal
  marker for the start of a part, since the test of line 123 comes before the test of
  line 143 and holds whenever that one does; it reads the bytes after the marker as a
  header block and a payload, and creates a second file \<^verbatim>\<open>out/x\<close>. It does so when the
  stream comes as one chunk and when it is cut inside the terminal marker: the files do
  not depend on the chunking (\<open>iter_content_concat\<close>), and they are those of the
  reference parse when no empty line follows the terminal marker
  (\<open>decoder_agrees_with_reference\<close>).
\<close>

theorem decoder_files_differ_from_reference:
  "wellformed ''B''
     (CRLF @ ''--B'' @ CRLF @ ''X-Part-Name: '' @ [CHR 0x22] @ ''a'' @ [CHR 0x22] @ CRLF @ CRLF
      @ ''hello'' @ CRLF @ ''--B--'' @ CRLF @ ''X-Part-Name: '' @ [CHR 0x22] @ ''x'' @ [CHR 0x22]
      @ CRLF @ CRLF @ ''zz'' @ CRLF @ ''--B'')
   \<and> reference_files ''B'' (lit ''out'')
       (CRLF @ ''--B'' @ CRLF @ ''X-Part-Name: '' @ [CHR 0x22] @ ''a'' @ [CHR 0x22] @ CRLF @ CRLF
        @ ''hello'' @ CRLF @ ''--B--'' @ CRLF @ ''X-Part-Name: '' @ [CHR 0x22] @ ''x'' @ [CHR 0x22]
        @ CRLF @ CRLF @ ''zz'' @ CRLF @ ''--B'')
       Map.empty
     = [lit ''out/a'' \<mapsto> ''hello'']
   \<and> iter_content ''B'' (lit ''out'')
       [CRLF @ ''--B'' @ CRLF @ ''X-Part-Name: '' @ [CHR 0x22] @ ''a'' @ [CHR 0x22] @ CRLF @ CRLF
        @ ''hello'' @ CRLF @ ''--B--'' @ CRLF @ ''X-Part-Name: '' @ [CHR 0x22] @ ''x'' @ [CHR 0x22]
        @ CRLF @ CRLF @ ''zz'' @ CRLF @ ''--B'']
       (init \<lparr>files = Map.empty, stdout = [], refused = (\<lambda>p. None)\<rparr>)
     = Inr \<lparr>files = [lit ''out/a'' \<mapsto> ''hello'', lit ''out/x'' \<mapsto> ''zz''], stdout = [],
            refused = (\<lambda>p. None), current_file = None, buffer = CRLF @ ''--B''\<rparr>
   \<and> iter_content ''B'' (lit ''out'')
       [CRLF @ ''--B'' @ CRLF @ ''X-Part-Name: '' @ [CHR 0x22] @ ''a'' @ [CHR 0x22] @ CRLF @ CRLF
        @ ''hello'' @ CRLF @ ''--'',
        ''B--'' @ CRLF @ ''X-Part-Name: '' @ [CHR 0x22] @ ''x'' @ [CHR 0x22]
        @ CRLF @ CRLF @ ''zz'' @ CRLF @ ''--B'']
       (init \<lparr>files = Map.empty, stdout = [], refused = (\<lambda>p. None)\<rparr>)
     = Inr \<lparr>files = [lit ''out/a'' \<mapsto> ''hello'', lit ''out/x'' \<mapsto> ''zz''], stdout = [],
            refused = (\<lambda>p. None), current_file = None, buffer = CRLF @ ''--B''\<rparr>"
proof (intro conjI)
  let ?S = "CRLF @ ''--B'' @ CRLF @ ''X-Part-Name: '' @ [CHR 0x22] @ ''a'' @ [CHR 0x22] @ CRLF @ CRLF
      @ ''hello'' @ CRLF @ ''--B--'' @ CRLF @ ''X-Part-Name: '' @ [CHR 0x22] @ ''x'' @ [CHR 0x22]
      @ CRLF @ CRLF @ ''zz'' @ CRLF @ ''--B''"
  have parse: "reference_parse ''B'' ?S
     = Some ([(lit ''a'', ''hello'')],
             CRLF @ ''--B--'' @ CRLF @ ''X-Part-Name: '' @ [CHR 0x22] @ ''x'' @ [CHR 0x22]
             @ CRLF @ CRLF @ ''zz'' @ CRLF @ ''--B'')"
    by (simp add: reference_parse.simps startswith_def CRLF_def name_match_def part_name_at_def
          lit_def is_space_def cont_def Let_def)
  show "wellformed ''B'' ?S"
    unfolding wellformed_def parse by simp
  show "reference_files ''B'' (lit ''out'') ?S Map.empty = [lit ''out/a'' \<mapsto> ''hello'']"
    unfolding reference_files_def parse by (simp add: path_join_def startswith_def lit_def)
qed (simp_all add: eval_simps)


subsection \<open>A header block without a name\<close>

lemma part_name_at_Some:
  "part_name_at s = Some g \<Longrightarrow> g \<noteq> [] \<and> 34 \<notin> set g"
  by (auto simp: part_name_at_def Let_def split: if_splits list.splits dest: set_takeWhileD)

lemma name_match_Some:
  "name_match hs = Some g \<Longrightarrow> g \<noteq> [] \<and> 34 \<notin> set g"
  unfolding name_match_def
  by (induction hs) (auto split: option.splits dest: part_name_at_Some)

text \<open>
  Claim C5, as stated, fails. The header block of the one part has no \<^verbatim>\<open>X-Part-Name\<close>
  field. The decoder raises no error: it returns normally, having created no file, and
  the payload and the terminal marker stay in the buffer, never looked at again.
\<close>

theorem nameless_header_raises_nothing:
  "iter_content ''B'' (lit ''out'')
     [CRLF @ ''--B'' @ CRLF @ ''Content-Type: text/plain'' @ CRLF @ CRLF @ ''data'' @ CRLF
      @ ''--B--'' @ CRLF]
     (init \<lparr>files = Map.empty, stdout = [], refused = (\<lambda>p. None)\<rparr>)
   = Inr \<lparr>files = Map.empty, stdout = [], refused = (\<lambda>p. None), current_file = None,
          buffer = ''data'' @ CRLF @ ''--B--'' @ CRLF\<rparr>"
  by (simp add: eval_simps)

text \<open>
  Claim C5, amended. When the buffer starts with a start boundary and holds a complete
  header block that decodes and has no name field, the decoder raises no error and opens
  no file: it closes the file of the part before, drops the header block with its
  terminator and goes on with no part open. Unless another boundary marker follows at
  once it then waits, and the files are as they were. A name that is found is never
  empty and holds no quote (\<open>name_match_Some\<close>).
\<close>

theorem nameless_header_is_skipped:
  assumes "startswith (buffer s) (CRLF @ ''--'' @ b)"
    and "find_bytes (buffer s) (CRLF @ CRLF) = Some h"
    and "decode_utf8 (take h (buffer s)) = Some hs"
    and "name_match hs = None"
  shows "process b d s = process b d (s\<lparr>current_file := None, buffer := drop (h + 4) (buffer s)\<rparr>)
     \<and> (\<not> startswith (drop (h + 4) (buffer s)) (CRLF @ ''--'' @ b) \<longrightarrow>
          process b d s = Inr (s\<lparr>current_file := None, buffer := drop (h + 4) (buffer s)\<rparr>))"
proof -
  let ?t = "s\<lparr>current_file := None, buffer := drop (h + 4) (buffer s)\<rparr>"
  have "start_part d hs h s = Inr ?t"
    using assms(4) by (simp add: start_part_def)
  with assms have step: "process b d s = process b d ?t"
    by (simp add: process_marker)
  moreover have "process b d ?t = Inr ?t"
    if "\<not> startswith (drop (h + 4) (buffer s)) (CRLF @ ''--'' @ b)"
    using that by (intro process_idle) simp_all
  ultimately show ?thesis
    by simp
qed

theorem nameless_header_is_skipped_witness:
  "startswith (buffer \<lparr>files = Map.empty, stdout = [], refused = (\<lambda>p. None),
        current_file = Some (FileObj (lit ''out/a'') False),
        buffer = CRLF @ ''--B'' @ CRLF @ ''A: b'' @ CRLF @ CRLF @ ''data''\<rparr>) (CRLF @ ''--'' @ ''B'')
   \<and> find_bytes (CRLF @ ''--B'' @ CRLF @ ''A: b'' @ CRLF @ CRLF @ ''data'') (CRLF @ CRLF) = Some 11
   \<and> decode_utf8 (take 11 (CRLF @ ''--B'' @ CRLF @ ''A: b'' @ CRLF @ CRLF @ ''data''))
       = Some (lit (CRLF @ ''--B'' @ CRLF @ ''A: b''))
   \<and> name_match (lit (CRLF @ ''--B'' @ CRLF @ ''A: b'')) = None
   \<and> \<not> startswith (drop (11 + 4) (CRLF @ ''--B'' @ CRLF @ ''A: b'' @ CRLF @ CRLF @ ''data''))
         (CRLF @ ''--'' @ ''B'')
   \<and> process ''B'' (lit ''out'')
        \<lparr>files = Map.empty, stdout = [], refused = (\<lambda>p. None),
         current_file = Some (FileObj (lit ''out/a'') False),
         buffer = CRLF @ ''--B'' @ CRLF @ ''A: b'' @ CRLF @ CRLF @ ''data''\<rparr>
       = Inr \<lparr>files = Map.empty, stdout = [], refused = (\<lambda>p. None), current_file = None, buffer = ''data''\<rparr>"
proof -
  let ?B = "CRLF @ ''--B'' @ CRLF @ ''A: b'' @ CRLF @ CRLF @ ''data''"
  let ?s = "\<lparr>files = Map.empty, stdout = [], refused = (\<lambda>p. None),
        current_file = Some (FileObj (lit ''out/a'') False), buffer = ?B\<rparr>"
  have h1: "startswith (buffer ?s) (CRLF @ ''--'' @ ''B'')"
    by (simp add: startswith_def CRLF_def)
  have h2: "find_bytes (buffer ?s) (CRLF @ CRLF) = Some 11"
    by (simp add: startswith_def CRLF_def)
  have h3: "decode_utf8 (take 11 (buffer ?s)) = Some (lit (CRLF @ ''--B'' @ CRLF @ ''A: b''))"
    by (simp add: lit_def CRLF_def)
  have h4: "name_match (lit (CRLF @ ''--B'' @ CRLF @ ''A: b'')) = None"
    by (simp add: name_match_def part_name_at_def startswith_def lit_def CRLF_def)
  have h5: "\<not> startswith (drop (11 + 4) (buffer ?s)) (CRLF @ ''--'' @ ''B'')"
    by (simp add: startswith_def CRLF_def)
  from nameless_header_is_skipped [OF h1 h2 h3 h4, of "lit ''out''"] h5
  have "process ''B'' (lit ''out'') ?s = Inr (?s\<lparr>current_file := None, buffer := drop (11 + 4) (buffer ?s)\<rparr>)"
    by blast
  with h1 h2 h3 h4 h5 show ?thesis
    by (simp add: CRLF_def)
qed


subsection \<open>The end of the source\<close>










subsection \<open>The boundary parameter\<close>

lemma boundary_match_None:
  "boundary_match ct = None \<longleftrightarrow> find_bytes ct (lit ''boundary='') = None"
  unfolding boundary_match_def
  by (induction ct) (auto simp: boundary_at_def startswith_def lit_def split: option.splits if_splits)

lemma boundary_at_Some:
  assumes "boundary_at s = Some g"
  shows "\<exists>rest. s = lit ''boundary='' @ g @ rest \<and> 10 \<notin> set g \<and> (rest = [] \<or> hd rest = 10)"
proof -
  from assms have sw: "prefix (lit ''boundary='') s" and g: "g = takeWhile (\<lambda>c. c \<noteq> 10) (drop 9 s)"
    by (auto simp: boundary_at_def startswith_def split: if_splits)
  let ?rest = "dropWhile (\<lambda>c. c \<noteq> 10) (drop 9 s)"
  from sw have "s = lit ''boundary='' @ drop 9 s"
    by (auto simp: prefix_def lit_def)
  then have "s = lit ''boundary='' @ g @ ?rest"
    using g by simp
  moreover have "10 \<notin> set g"
    using g by (auto dest: set_takeWhileD)
  moreover have "?rest = [] \<or> hd ?rest = 10"
    using hd_dropWhile [of "\<lambda>c. c \<noteq> 10" "drop 9 s"] by auto
  ultimately show ?thesis by blast
qed

lemma boundary_match_Some:
  assumes "boundary_match ct = Some g"
  shows "\<exists>pre rest. ct = pre @ lit ''boundary='' @ g @ rest
           \<and> find_bytes ct (lit ''boundary='') = Some (length pre)
           \<and> 10 \<notin> set g \<and> (rest = [] \<or> hd rest = 10)"
  using assms unfolding boundary_match_def
proof (induction ct)
  case Nil
  then show ?case
    by (simp add: boundary_at_def startswith_def lit_def)
next
  case (Cons c cs)
  show ?case
  proof (cases "boundary_at (c # cs)")
    case (Some g')
    with Cons.prems have g': "g' = g" by simp
    from Some have "startswith (c # cs) (lit ''boundary='')"
      by (simp add: boundary_at_def split: if_splits)
    then have "find_bytes (c # cs) (lit ''boundary='') = Some (length ([] :: ustr))"
      by simp
    moreover from boundary_at_Some [OF Some] g'
    obtain rest where "c # cs = [] @ lit ''boundary='' @ g @ rest" "10 \<notin> set g"
      "rest = [] \<or> hd rest = 10"
      by auto
    ultimately show ?thesis by blast
  next
    case None
    then have nsw: "\<not> startswith (c # cs) (lit ''boundary='')"
      by (simp add: boundary_at_def split: if_splits)
    from None Cons.prems have "re_search boundary_at cs = Some g" by simp
    from Cons.IH [OF this] obtain pre rest where
      "cs = pre @ lit ''boundary='' @ g @ rest" "find_bytes cs (lit ''boundary='') = Some (length pre)"
      "10 \<notin> set g" "rest = [] \<or> hd rest = 10"
      by blast
    with nsw have "c # cs = (c # pre) @ lit ''boundary='' @ g @ rest
        \<and> find_bytes (c # cs) (lit ''boundary='') = Some (length (c # pre))
        \<and> 10 \<notin> set g \<and> (rest = [] \<or> hd rest = 10)"
      by simp
    then show ?thesis by blast
  qed
qed

lemma encode_utf8_ascii:
  "\<forall>c\<in>set g. c < 128 \<Longrightarrow> encode_utf8 g = Some (map char_of g)"
  by (induction g) (simp_all add: encode_char_def)

text \<open>
  Claim C9, as stated, fails. \<^verbatim>\<open>boundary=(.*)\<close> matches a parameter with nothing after the
  equals sign: the decoder raises no configuration error and goes on with the empty
  boundary token, for which the marker is \<^verbatim>\<open><CRLF>--\<close>.
\<close>

theorem empty_boundary_is_accepted:
  "boundary_match (lit ''multipart/mixed; boundary='') = Some []
   \<and> handle_multipart_response (lit ''out'')
       \<lparr>status_code = 200,
        headers = [''Content-Type'' \<mapsto> lit ''multipart/mixed; boundary=''],
        chunks = [CRLF @ ''--'' @ CRLF @ ''X-Part-Name: '' @ [CHR 0x22] @ ''a'' @ [CHR 0x22]
                  @ CRLF @ CRLF],
        fault = None\<rparr>
       \<lparr>files = Map.empty, stdout = [], refused = (\<lambda>p. None)\<rparr>
     = Inr \<lparr>files = [lit ''out/a'' \<mapsto> []], stdout = [], refused = (\<lambda>p. None),
            current_file = Some (FileObj (lit ''out/a'') False), buffer = []\<rparr>"
  by (simp add: handle_multipart_response_def boundary_match_def boundary_at_def eval_simps)

text \<open>
  Claim C9, amended. When the decoder gets past the extraction of the boundary, the token
  is the UTF-8 encoding of the text that follows the first \<^verbatim>\<open>boundary=\<close> of the content type
  up to the end of the line, the end of the header or the next line feed: it holds no
  line feed and may be empty. For ASCII text the bytes are the characters themselves. The
  decoder loop runs with exactly these bytes, which \<open>process\<close> compares byte for byte
  after \<^verbatim>\<open><CRLF>--\<close>.
\<close>

theorem boundary_token_is_rest_of_line:
  assumes "boundary_match (case headers response ''Content-Type'' of None \<Rightarrow> [] | Some v \<Rightarrow> v) = Some g"
    and "encode_utf8 g = Some b"
  shows "(\<exists>pre rest. (case headers response ''Content-Type'' of None \<Rightarrow> [] | Some v \<Rightarrow> v)
                = pre @ lit ''boundary='' @ g @ rest
           \<and> find_bytes (case headers response ''Content-Type'' of None \<Rightarrow> [] | Some v \<Rightarrow> v)
                (lit ''boundary='') = Some (length pre)
           \<and> 10 \<notin> set g \<and> (rest = [] \<or> hd rest = 10))
     \<and> ((\<forall>c\<in>set g. c < 128) \<longrightarrow> b = map char_of g)
     \<and> handle_multipart_response d response w
         = (case iter_content b d (chunks response) (init w) of
              Inl e \<Rightarrow> Inl e
            | Inr s \<Rightarrow> (case fault response of
                          Some e \<Rightarrow> Inl (e, world.truncate s)
                        | None \<Rightarrow> Inr s))"
proof (intro conjI impI)
  show "\<exists>pre rest. (case headers response ''Content-Type'' of None \<Rightarrow> [] | Some v \<Rightarrow> v)
                = pre @ lit ''boundary='' @ g @ rest
           \<and> find_bytes (case headers response ''Content-Type'' of None \<Rightarrow> [] | Some v \<Rightarrow> v)
                (lit ''boundary='') = Some (length pre)
           \<and> 10 \<notin> set g \<and> (rest = [] \<or> hd rest = 10)"
    using assms(1) by (rule boundary_match_Some)
  show "b = map char_of g" if "\<forall>c\<in>set g. c < 128"
    using encode_utf8_ascii [OF that] assms(2) by simp
  show "handle_multipart_response d response w
         = (case iter_content b d (chunks response) (init w) of
              Inl e \<Rightarrow> Inl e
            | Inr s \<Rightarrow> (case fault response of
                          Some e \<Rightarrow> Inl (e, world.truncate s)
                        | None \<Rightarrow> Inr s))"
    using assms by (simp add: handle_multipart_response_def)
qed

theorem boundary_token_is_rest_of_line_witness:
  "boundary_match (case headers
        \<lparr>status_code = 200,
         headers = [''Content-Type'' \<mapsto> lit ''multipart/mixed; boundary=B; x=1''],
         chunks = [], fault = None\<rparr> ''Content-Type'' of None \<Rightarrow> [] | Some v \<Rightarrow> v)
     = Some (lit ''B; x=1'')
   \<and> encode_utf8 (lit ''B; x=1'') = Some ''B; x=1''
   \<and> set (lit ''B; x=1'') \<subseteq> {c. c < 128}
   \<and> ''B; x=1'' = map char_of (lit ''B; x=1'')
   \<and> handle_multipart_response (lit ''out'')
        \<lparr>status_code = 200,
         headers = [''Content-Type'' \<mapsto> lit ''multipart/mixed; boundary=B; x=1''],
         chunks = [], fault = None\<rparr>
        \<lparr>files = Map.empty, stdout = [], refused = (\<lambda>p. None)\<rparr>
     = Inr (init \<lparr>files = Map.empty, stdout = [], refused = (\<lambda>p. None)\<rparr>)"
proof -
  let ?R = "\<lparr>status_code = 200,
         headers = [''Content-Type'' \<mapsto> lit ''multipart/mixed; boundary=B; x=1''],
         chunks = [], fault = None\<rparr>"
  have h1: "boundary_match (case headers ?R ''Content-Type'' of None \<Rightarrow> [] | Some v \<Rightarrow> v)
            = Some (lit ''B; x=1'')"
    by (simp add: boundary_match_def boundary_at_def startswith_def lit_def)
  have h2: "encode_utf8 (lit ''B; x=1'') = Some ''B; x=1''"
    by (simp add: lit_def encode_char_def char_of_eq_iff take_bit_eq_mod)
  have h3: "\<forall>c\<in>set (lit ''B; x=1''). c < 128"
    by (simp add: lit_def)
  from boundary_token_is_rest_of_line [OF h1 h2, of "lit ''out''" "\<lparr>files = Map.empty, stdout = [], refused = (\<lambda>p. None)\<rparr>"]
  have "''B; x=1'' = map char_of (lit ''B; x=1'')"
    and "handle_multipart_response (lit ''out'') ?R \<lparr>files = Map.empty, stdout = [], refused = (\<lambda>p. None)\<rparr>
         = Inr (init \<lparr>files = Map.empty, stdout = [], refused = (\<lambda>p. None)\<rparr>)"
    using h3 by simp_all
  with h1 h2 h3 show ?thesis
    by auto
qed

text \<open>
  Claim C6. When the content type of a multipart response has no \<^verbatim>\<open>boundary=\<close> parameter
  (the header may be missing altogether), the decoder raises the \<^verbatim>\<open>ValueError\<close> of line 110
  and leaves the world as it found it: no file is created. The result is the same for
  every chunk list and every fault of the source, so no chunk is read.
\<close>

theorem missing_boundary_is_configuration_error:
  assumes "find_bytes (case headers response ''Content-Type'' of None \<Rightarrow> [] | Some v \<Rightarrow> v)
             (lit ''boundary='') = None"
  shows "handle_multipart_response download_dir (response\<lparr>chunks := cs, fault := ft\<rparr>) w
         = Inl (ValueError ''No boundary found in Content-Type header'', w)"
proof -
  from assms have "boundary_match (case headers response ''Content-Type'' of None \<Rightarrow> [] | Some v \<Rightarrow> v) = None"
    by (simp add: boundary_match_None)
  then show ?thesis
    by (simp add: handle_multipart_response_def)
qed

theorem missing_boundary_is_configuration_error_witness:
  "find_bytes (case [''Content-Type'' \<mapsto> lit ''multipart/mixed''] ''Content-Type'' of None \<Rightarrow> [] | Some v \<Rightarrow> v)
             (lit ''boundary='') = None
   \<and> handle_multipart_response (lit ''out'')
       \<lparr>status_code = 200, headers = [''Content-Type'' \<mapsto> lit ''multipart/mixed''],
        chunks = [''abc''], fault = Some ChunkedEncodingError\<rparr>
       \<lparr>files = Map.empty, stdout = [], refused = (\<lambda>p. None)\<rparr>
     = Inl (ValueError ''No boundary found in Content-Type header'', \<lparr>files = Map.empty, stdout = [], refused = (\<lambda>p. None)\<rparr>)"
proof -
  have h: "find_bytes (case headers \<lparr>status_code = 200, headers = [''Content-Type'' \<mapsto> lit ''multipart/mixed''],
        chunks = [], fault = None\<rparr> ''Content-Type'' of None \<Rightarrow> [] | Some v \<Rightarrow> v)
             (lit ''boundary='') = None"
    by (simp add: lit_def startswith_def)
  show ?thesis
    using h missing_boundary_is_configuration_error [OF h, where download_dir = "lit ''out''" and cs = "[''abc'']" and ft = "Some ChunkedEncodingError" and w = "\<lparr>files = Map.empty, stdout = [], refused = (\<lambda>p. None)\<rparr>"]
    by simp
qed


subsection \<open>The single-file handler\<close>

lemma write_chunks_concat:
  "files w p = Some old \<Longrightarrow>
   write_chunks p cs w = w\<lparr>files := (files w)(p \<mapsto> old @ concat cs)\<rparr>"
proof (induction cs arbitrary: w old)
  case Nil
  then show ?case by (simp add: fun_upd_idem)
next
  case (Cons c cs)
  show ?case
  proof (cases "c = []")
    case True
    with Cons.IH [OF Cons.prems] show ?thesis by simp
  next
    case False
    have "files (w\<lparr>files := append_file p c (files w)\<rparr>) p = Some (old @ c)"
      using Cons.prems by (simp add: append_file_def)
    from Cons.IH [OF this] False Cons.prems show ?thesis
      by (simp add: append_file_def) (simp add: fun_eq_iff)
  qed
qed

lemma filename_match_Nil: "filename_match [] = None"
  by (simp add: filename_match_def filename_at_def startswith_def lit_def)

text \<open>
  Claim C8. When the \<^verbatim>\<open>Content-Disposition\<close> header carries a file name, the handler
  opens one file, at the path joined from the download directory and that name, and when
  \<^verbatim>\<open>open\<close> raises, the handler raises the same and changes nothing. Otherwise its
  content is the concatenation of the chunks in arrival order, whose length is the sum
  of the chunk lengths; no other file changes. The handler then prints the name, or
  raises the fault of the source if there is one. When the header is missing or carries
  no file name, the handler raises \<^verbatim>\<open>ValueError\<close> and changes nothing.
\<close>

theorem single_file_written_in_arrival_order:
  "(headers response ''Content-Disposition'' = Some cd \<and> filename_match cd = Some filename \<longrightarrow>
      handle_single_file_response download_dir response w
        = (case open_error (refused w) (path_join download_dir filename) of
             Some e \<Rightarrow> Inl (e, w)
           | None \<Rightarrow>
               (let w' = w\<lparr>files := (files w)(path_join download_dir filename \<mapsto>
                                      concat (chunks response))\<rparr>
                in case fault response of
                     None \<Rightarrow> Inr (w'\<lparr>stdout := stdout w @ [Downloaded filename]\<rparr>)
                   | Some e \<Rightarrow> Inl (e, w')))
      \<and> length (concat (chunks response)) = sum_list (map length (chunks response)))
   \<and> ((case headers response ''Content-Disposition'' of
          None \<Rightarrow> True
        | Some cd \<Rightarrow> filename_match cd = None) \<longrightarrow>
       (\<exists>msg. handle_single_file_response download_dir response w = Inl (ValueError msg, w)))"
proof (intro conjI impI)
  assume h: "headers response ''Content-Disposition'' = Some cd \<and> filename_match cd = Some filename"
  then have "cd \<noteq> []"
    using filename_match_Nil by auto
  with h show "handle_single_file_response download_dir response w
        = (case open_error (refused w) (path_join download_dir filename) of
             Some e \<Rightarrow> Inl (e, w)
           | None \<Rightarrow>
               (let w' = w\<lparr>files := (files w)(path_join download_dir filename \<mapsto>
                                      concat (chunks response))\<rparr>
                in case fault response of
                     None \<Rightarrow> Inr (w'\<lparr>stdout := stdout w @ [Downloaded filename]\<rparr>)
                   | Some e \<Rightarrow> Inl (e, w')))"
    by (simp add: handle_single_file_response_def write_chunks_concat [where old = "[]"] Let_def
             split: option.splits)
next
  show "length (concat (chunks response)) = sum_list (map length (chunks response))"
    by (simp add: length_concat)
next
  assume "case headers response ''Content-Disposition'' of None \<Rightarrow> True
          | Some cd \<Rightarrow> filename_match cd = None"
  then show "\<exists>msg. handle_single_file_response download_dir response w = Inl (ValueError msg, w)"
    by (auto simp: handle_single_file_response_def split: option.splits)
qed

theorem single_file_written_in_arrival_order_witness:
  "(headers \<lparr>status_code = 200,
         headers = [''Content-Disposition'' \<mapsto> lit (''attachment; filename='' @ [CHR 0x22] @ ''data.bin'' @ [CHR 0x22])],
         chunks = [''ab'', ''cd'', ''e''], fault = None\<rparr> ''Content-Disposition''
      = Some (lit (''attachment; filename='' @ [CHR 0x22] @ ''data.bin'' @ [CHR 0x22]))
    \<and> filename_match (lit (''attachment; filename='' @ [CHR 0x22] @ ''data.bin'' @ [CHR 0x22]))
      = Some (lit ''data.bin'')
    \<and> handle_single_file_response (lit ''out'')
        \<lparr>status_code = 200,
         headers = [''Content-Disposition'' \<mapsto> lit (''attachment; filename='' @ [CHR 0x22] @ ''data.bin'' @ [CHR 0x22])],
         chunks = [''ab'', ''cd'', ''e''], fault = None\<rparr>
        \<lparr>files = Map.empty, stdout = [], refused = (\<lambda>p. None)\<rparr>
      = Inr \<lparr>files = [lit ''out/data.bin'' \<mapsto> ''abcde''], stdout = [Downloaded (lit ''data.bin'')], refused = (\<lambda>p. None)\<rparr>)
   \<and> ((case headers \<lparr>status_code = 200, headers = Map.empty, chunks = [''ab''], fault = None\<rparr>
              ''Content-Disposition'' of None \<Rightarrow> True | Some cd \<Rightarrow> filename_match cd = None)
      \<and> (\<exists>msg. handle_single_file_response (lit ''out'')
                  \<lparr>status_code = 200, headers = Map.empty, chunks = [''ab''], fault = None\<rparr>
                  \<lparr>files = Map.empty, stdout = [], refused = (\<lambda>p. None)\<rparr>
                = Inl (ValueError msg, \<lparr>files = Map.empty, stdout = [], refused = (\<lambda>p. None)\<rparr>)))"
proof -
  have fm: "filename_match (lit (''attachment; filename='' @ [CHR 0x22] @ ''data.bin'' @ [CHR 0x22]))
      = Some (lit ''data.bin'')"
    by (simp add: filename_match_def filename_at_def startswith_def lit_def)
  have pj: "path_join (lit ''out'') (lit ''data.bin'') = lit ''out/data.bin''"
    by (simp add: path_join_def startswith_def lit_def)
  have oe: "open_error (\<lambda>p. None) (lit ''out/data.bin'') = None"
    by (simp add: open_error_def lit_def)
  show ?thesis
    using fm pj oe
      single_file_written_in_arrival_order
        [where response = "\<lparr>status_code = 200,
           headers = [''Content-Disposition'' \<mapsto> lit (''attachment; filename='' @ [CHR 0x22] @ ''data.bin'' @ [CHR 0x22])],
           chunks = [''ab'', ''cd'', ''e''], fault = None\<rparr>"
         and cd = "lit (''attachment; filename='' @ [CHR 0x22] @ ''data.bin'' @ [CHR 0x22])"
         and filename = "lit ''data.bin''" and download_dir = "lit ''out''"
         and w = "\<lparr>files = Map.empty, stdout = [], refused = (\<lambda>p. None)\<rparr>"]
      single_file_written_in_arrival_order
        [where response = "\<lparr>status_code = 200, headers = Map.empty, chunks = [''ab''], fault = None\<rparr>"
         and download_dir = "lit ''out''" and w = "\<lparr>files = Map.empty, stdout = [], refused = (\<lambda>p. None)\<rparr>"]
    by simp
qed


subsection \<open>Download\<close>

lemma open_error_is_Exception: "open_error r p = Some e \<Longrightarrow> is_Exception e"
  by (auto simp: open_error_def is_Exception_def split: if_splits)

lemma iter_content_error:
  "iter_content b d cs (init w) = Inl (e, w') \<Longrightarrow> is_Exception e"
  using iter_content_safe [OF settled_init [of w], where b = b and d = d and cs = cs]
  by (auto simp: kept_def is_Exception_def dest: open_error_is_Exception)

lemma handle_multipart_response_error:
  assumes "handle_multipart_response d response w = Inl (e, w')"
  shows "is_Exception e \<or> fault response = Some e"
  using assms
  by (auto simp: handle_multipart_response_def is_Exception_def
      split: option.splits sum.splits dest: iter_content_error)

lemma handle_single_file_response_error:
  assumes "handle_single_file_response d response w = Inl (e, w')"
  shows "is_Exception e \<or> fault response = Some e"
  using assms
  by (auto simp: handle_single_file_response_def is_Exception_def Let_def
      split: option.splits if_splits dest: open_error_is_Exception)

lemma download_try_error:
  assumes "download_try d got w = Inl (e, w')"
  shows "is_Exception e \<or> got = Inl e \<or> (\<exists>response. got = Inr response \<and> fault response = Some e)"
proof (cases got)
  case (Inl e')
  with assms show ?thesis by (simp add: download_try_def)
next
  case (Inr response)
  with assms show ?thesis
    using handle_multipart_response_error [of d response w e]
      handle_single_file_response_error [of d response w e w']
    by (auto simp: download_try_def is_Exception_def Let_def split: if_splits sum.splits)
qed

text \<open>
  Claim C10. Let the transport raise only subclasses of \<^verbatim>\<open>Exception\<close>, from \<^verbatim>\<open>session.get\<close>
  and from the chunk source. Then \<^verbatim>\<open>download\<close> returns normally whatever happens in its
  \<^verbatim>\<open>try\<close> block: a missing boundary or file name, a header block that does not decode, an
  HTTP error status, a transport error. When the block raised, the world is the one the
  exception left, with one more line printed: the chunked-transfer line for a
  \<^verbatim>\<open>ChunkedEncodingError\<close>, the line \<^verbatim>\<open>Error: ...\<close> for every other exception. (An exception
  outside \<^verbatim>\<open>Exception\<close>, such as \<^verbatim>\<open>KeyboardInterrupt\<close>, is not caught by either clause.)
\<close>

theorem download_lets_no_exception_escape:
  assumes "\<forall>e. got = Inl e \<longrightarrow> is_Exception e"
    and "\<forall>response e. got = Inr response \<and> fault response = Some e \<longrightarrow> is_Exception e"
  shows "\<exists>w'. download d got w = Inr w'
           \<and> (case download_try d got w of
                 Inr w1 \<Rightarrow> w' = w1
               | Inl (e, w1) \<Rightarrow>
                   w' = w1\<lparr>stdout := stdout w1 @
                          [if e = ChunkedEncodingError then Error_during_chunked_transfer e
                           else Error e]\<rparr>)"
proof (cases "download_try d got w")
  case (Inr w1)
  then show ?thesis by (simp add: download_def)
next
  case (Inl ew)
  obtain e w1 where ew: "ew = (e, w1)" by (cases ew)
  from download_try_error [of d got w e w1] Inl ew assms have "is_Exception e"
    by auto
  with Inl ew show ?thesis
    by (simp add: download_def)
qed

theorem download_lets_no_exception_escape_witness:
  "(\<forall>e. (Inr \<lparr>status_code = 200,
              headers = [''Content-Type'' \<mapsto> lit ''multipart/mixed''],
              chunks = [''abc''], fault = Some ChunkedEncodingError\<rparr> :: error + response) \<noteq> Inl e)
   \<and> is_Exception ChunkedEncodingError
   \<and> download (lit ''out'')
        (Inr \<lparr>status_code = 200,
              headers = [''Content-Type'' \<mapsto> lit ''multipart/mixed''],
              chunks = [''abc''], fault = Some ChunkedEncodingError\<rparr>)
        \<lparr>files = Map.empty, stdout = [], refused = (\<lambda>p. None)\<rparr>
     = Inr \<lparr>files = Map.empty,
            stdout = [Error (ValueError ''No boundary found in Content-Type header'')], refused = (\<lambda>p. None)\<rparr>
   \<and> download (lit ''out'')
        (Inr \<lparr>status_code = 200,
              headers = [''Content-Disposition'' \<mapsto> lit ''filename=f''],
              chunks = [''abc''], fault = Some ChunkedEncodingError\<rparr>)
        \<lparr>files = Map.empty, stdout = [], refused = (\<lambda>p. None)\<rparr>
     = Inr \<lparr>files = [lit ''out/f'' \<mapsto> ''abc''],
            stdout = [Error_during_chunked_transfer ChunkedEncodingError], refused = (\<lambda>p. None)\<rparr>"
proof -
  let ?R1 = "\<lparr>status_code = 200,
              headers = [''Content-Type'' \<mapsto> lit ''multipart/mixed''],
              chunks = [''abc''], fault = Some ChunkedEncodingError\<rparr>"
  let ?R2 = "\<lparr>status_code = 200,
              headers = [''Content-Disposition'' \<mapsto> lit ''filename=f''],
              chunks = [''abc''], fault = Some ChunkedEncodingError\<rparr>"
  let ?W = "\<lparr>files = Map.empty, stdout = [], refused = (\<lambda>p. None)\<rparr>"
  have ex: "is_Exception ChunkedEncodingError"
    by (simp add: is_Exception_def)
  have t1: "download_try (lit ''out'') (Inr ?R1) ?W
            = Inl (ValueError ''No boundary found in Content-Type header'', ?W)"
    by (simp add: download_try_def handle_multipart_response_def boundary_match_def
          boundary_at_def startswith_def lit_def)
  have t2: "download_try (lit ''out'') (Inr ?R2) ?W
            = Inl (ChunkedEncodingError, \<lparr>files = [lit ''out/f'' \<mapsto> ''abc''], stdout = [], refused = (\<lambda>p. None)\<rparr>)"
    by (simp add: download_try_def handle_single_file_response_def filename_match_def
          filename_at_def startswith_def lit_def path_join_def append_file_def open_error_def
          Let_def)
  have a1: "\<forall>e. (Inr ?R1 :: error + response) = Inl e \<longrightarrow> is_Exception e"
    and a2: "\<forall>response e. (Inr ?R1 :: error + response) = Inr response \<and> fault response = Some e
               \<longrightarrow> is_Exception e"
    and b1: "\<forall>e. (Inr ?R2 :: error + response) = Inl e \<longrightarrow> is_Exception e"
    and b2: "\<forall>response e. (Inr ?R2 :: error + response) = Inr response \<and> fault response = Some e
               \<longrightarrow> is_Exception e"
    using ex by auto
  from download_lets_no_exception_escape [OF a1 a2, of "lit ''out''" ?W]
    download_lets_no_exception_escape [OF b1 b2, of "lit ''out''" ?W]
  show ?thesis
    using ex unfolding t1 t2 by simp
qed


subsection \<open>The speed functions\<close>

lemma floor_numeral_div_rat:
  "\<lfloor>numeral a / numeral b :: rat\<rfloor> = numeral a div numeral b"
  using floor_divide_of_int_eq [of "numeral a" "numeral b", where ?'a = rat] by simp

text \<open>The definitions that evaluate the speed functions on a number.\<close>

lemmas speed_simps = format_speed_def fmt2_def round_half_even_def decimal.simps digit_def Let_def
  char_of_eq_iff take_bit_eq_mod floor_numeral_div_rat

lemma round_half_even_near: "\<bar>of_int (round_half_even q) - q\<bar> \<le> 1 / 2"
proof -
  have "of_int \<lfloor>q\<rfloor> \<le> q" and "q < of_int \<lfloor>q\<rfloor> + 1"
    by linarith+
  then show ?thesis
    by (auto simp: round_half_even_def Let_def)
qed

lemma fmt2_point:
  "4 \<le> length (fmt2 x) \<and> fmt2 x ! (length (fmt2 x) - 3) = CHR ''.''"
proof -
  have "decimal n \<noteq> []" for n
    by (subst decimal.simps) simp
  then have "0 < length (decimal n)" for n
    by simp
  then have "Suc 0 \<le> length (decimal n)" for n
    by (simp add: Suc_le_eq)
  then show ?thesis
    by (simp add: fmt2_def Let_def nth_append)
qed

text \<open>
  Claim C7. With an elapsed time of 0 both speeds are 0, no division takes place, and
  both are printed as \<^verbatim>\<open>0.00 B/s\<close>; 1536 bytes in 1 second are printed as \<^verbatim>\<open>1.50 KB/s\<close>. The
  unit is chosen by dividing by 1024 until the value is under 1024: B/s, KB/s, MB/s, GB/s
  and, past the last division, TB/s. The number is printed with exactly two digits after
  the point, and these digits are the value rounded to the nearest hundredth.
\<close>

theorem speed_formatting:
  "calculate_speed bytes_received total_bytes 0 = (0, 0)
   \<and> format_speed (fst (calculate_speed bytes_received total_bytes 0)) = ''0.00 B/s''
   \<and> format_speed (snd (calculate_speed bytes_received total_bytes 0)) = ''0.00 B/s''
   \<and> format_speed (fst (calculate_speed 1536 1536 1)) = ''1.50 KB/s''
   \<and> format_speed (snd (calculate_speed 1536 1536 1)) = ''1.50 KB/s''
   \<and> (speed < 1024 \<longrightarrow> format_speed speed = fmt2 speed @ '' B/s'')
   \<and> (1024 \<le> speed \<and> speed < 1024 ^ 2 \<longrightarrow>
        format_speed speed = fmt2 (speed / 1024) @ '' KB/s'')
   \<and> (1024 ^ 2 \<le> speed \<and> speed < 1024 ^ 3 \<longrightarrow>
        format_speed speed = fmt2 (speed / 1024 ^ 2) @ '' MB/s'')
   \<and> (1024 ^ 3 \<le> speed \<and> speed < 1024 ^ 4 \<longrightarrow>
        format_speed speed = fmt2 (speed / 1024 ^ 3) @ '' GB/s'')
   \<and> (1024 ^ 4 \<le> speed \<longrightarrow> format_speed speed = fmt2 (speed / 1024 ^ 4) @ '' TB/s'')
   \<and> 4 \<le> length (fmt2 x) \<and> fmt2 x ! (length (fmt2 x) - 3) = CHR ''.''
   \<and> \<bar>of_int (round_half_even (\<bar>x\<bar> * 100)) - \<bar>x\<bar> * 100\<bar> \<le> 1 / 2"
proof (intro conjI impI)
  show "calculate_speed bytes_received total_bytes 0 = (0, 0)"
    by (simp add: calculate_speed_def)
  show "format_speed (fst (calculate_speed bytes_received total_bytes 0)) = ''0.00 B/s''"
    by (simp add: calculate_speed_def speed_simps)
  show "format_speed (snd (calculate_speed bytes_received total_bytes 0)) = ''0.00 B/s''"
    by (simp add: calculate_speed_def speed_simps)
  show "format_speed (fst (calculate_speed 1536 1536 1)) = ''1.50 KB/s''"
    by (simp add: calculate_speed_def speed_simps)
  show "format_speed (snd (calculate_speed 1536 1536 1)) = ''1.50 KB/s''"
    by (simp add: calculate_speed_def speed_simps)
  show "format_speed speed = fmt2 speed @ '' B/s''" if "speed < 1024"
    using that by (simp add: format_speed_def)
  show "format_speed speed = fmt2 (speed / 1024) @ '' KB/s''"
    if "1024 \<le> speed \<and> speed < 1024 ^ 2"
    using that by (simp add: format_speed_def)
  show "format_speed speed = fmt2 (speed / 1024 ^ 2) @ '' MB/s''"
    if "1024 ^ 2 \<le> speed \<and> speed < 1024 ^ 3"
    using that by (simp add: format_speed_def)
  show "format_speed speed = fmt2 (speed / 1024 ^ 3) @ '' GB/s''"
    if "1024 ^ 3 \<le> speed \<and> speed < 1024 ^ 4"
    using that by (simp add: format_speed_def)
  show "format_speed speed = fmt2 (speed / 1024 ^ 4) @ '' TB/s''" if "1024 ^ 4 \<le> speed"
    using that by (simp add: format_speed_def)
  show "4 \<le> length (fmt2 x)" and "fmt2 x ! (length (fmt2 x) - 3) = CHR ''.''"
    using fmt2_point [of x] by simp_all
  show "\<bar>of_int (round_half_even (\<bar>x\<bar> * 100)) - \<bar>x\<bar> * 100\<bar> \<le> 1 / 2"
    by (rule round_half_even_near)
qed

theorem speed_formatting_witness:
  "(500 :: rat) < 1024 \<and> format_speed 500 = ''500.00 B/s''
   \<and> (1024 :: rat) \<le> 1536 \<and> (1536 :: rat) < 1024 ^ 2 \<and> format_speed 1536 = ''1.50 KB/s''
   \<and> (1024 :: rat) ^ 2 \<le> 3145728 \<and> (3145728 :: rat) < 1024 ^ 3
   \<and> format_speed 3145728 = ''3.00 MB/s''
   \<and> (1024 :: rat) ^ 3 \<le> 2147483648 \<and> (2147483648 :: rat) < 1024 ^ 4
   \<and> format_speed 2147483648 = ''2.00 GB/s''
   \<and> (1024 :: rat) ^ 4 \<le> 5497558138880 \<and> format_speed 5497558138880 = ''5.00 TB/s''"
proof -
  have b: "format_speed 500 = fmt2 500 @ '' B/s''"
    using speed_formatting [where speed = 500] by simp
  have k: "format_speed 1536 = fmt2 (1536 / 1024) @ '' KB/s''"
    using speed_formatting [where speed = 1536] by simp
  have m: "format_speed 3145728 = fmt2 (3145728 / 1024 ^ 2) @ '' MB/s''"
    using speed_formatting [where speed = 3145728] by simp
  have g: "format_speed 2147483648 = fmt2 (2147483648 / 1024 ^ 3) @ '' GB/s''"
    using speed_formatting [where speed = 2147483648] by simp
  have t: "format_speed 5497558138880 = fmt2 (5497558138880 / 1024 ^ 4) @ '' TB/s''"
    using speed_formatting [where speed = 5497558138880] by simp
  have f: "fmt2 500 = ''500.00''" "fmt2 (1536 / 1024) = ''1.50''"
    "fmt2 (3145728 / 1024 ^ 2) = ''3.00''" "fmt2 (2147483648 / 1024 ^ 3) = ''2.00''"
    "fmt2 (5497558138880 / 1024 ^ 4) = ''5.00''"
    by (simp_all add: fmt2_def round_half_even_def decimal.simps digit_def Let_def
          char_of_eq_iff take_bit_eq_mod floor_numeral_div_rat)
  show ?thesis
    unfolding b k m g t f by simp
qed

end
